theory Spec2Isabelle
  imports Complex_Main
begin

section \<open>JavaScript strings\<close>

text \<open>
  A string is a list of code units; only code units below 256 are representable, so of
  the characters that \<^verbatim>\<open>String.prototype.trim\<close> strips (TAB, LF, VT, FF, CR, SP, NBSP
  and the Unicode spaces beyond Latin-1) the model has the first seven.
\<close>

definition isWhiteSpace :: "char \<Rightarrow> bool" where
  "isWhiteSpace c = (of_char c \<in> {9, 10, 11, 12, 13, 32, 160 :: nat})"

definition trim :: "string \<Rightarrow> string" where
  "trim s = rev (dropWhile isWhiteSpace (rev (dropWhile isWhiteSpace s)))"

text \<open>\<^verbatim>\<open>s.endsWith(t)\<close>, \<^verbatim>\<open>s.startsWith(t)\<close> and \<^verbatim>\<open>s.slice(0, -n)\<close>.\<close>

definition endsWith :: "string \<Rightarrow> string \<Rightarrow> bool" where
  "endsWith s t = (length t \<le> length s \<and> drop (length s - length t) s = t)"

definition startsWith :: "string \<Rightarrow> string \<Rightarrow> bool" where
  "startsWith s t = (take (length t) s = t)"

definition slice0neg :: "string \<Rightarrow> nat \<Rightarrow> string" where
  "slice0neg s n = take (length s - n) s"

text \<open>\<^verbatim>\<open>xs.join(sep)\<close>.\<close>

fun join :: "string \<Rightarrow> string list \<Rightarrow> string" where
  "join sep [] = []"
| "join sep [x] = x"
| "join sep (x # y # ys) = x @ sep @ join sep (y # ys)"

text \<open>Exceptions are values; a function that can throw returns \<open>js_error + 'a\<close>.\<close>

datatype js_error = Error string | TypeError string | SyntaxError string

section \<open>Write Task: the reply check\<close>

text \<open>
  \<^verbatim>\<open>const successRE = /1 image files? updated/\<close>.
  \<open>successRE_at s\<close>: the pattern matches at the start of \<open>s\<close>;
  \<open>successRE_exec s\<close>: \<^verbatim>\<open>successRE.exec(s) != null\<close>, a match at some position.
\<close>

definition successRE_at :: "string \<Rightarrow> bool" where
  "successRE_at s =
     (startsWith s ''1 image file'' \<and>
      (let r = drop 12 s in startsWith r ''s updated'' \<or> startsWith r '' updated''))"

fun successRE_exec :: "string \<Rightarrow> bool" where
  "successRE_exec [] = successRE_at []"
| "successRE_exec (c # cs) = (successRE_at (c # cs) \<or> successRE_exec cs)"

text \<open>
  \<^verbatim>\<open>WriteTask.parse(data, err)\<close>; \<open>errors\<close> is the task's \<^verbatim>\<open>this.errors\<close>.
  A normal return is \<open>Inr ()\<close>, a throw is \<open>Inl\<close>.
\<close>

definition WriteTask_parse :: "js_error option \<Rightarrow> string list \<Rightarrow> string \<Rightarrow> js_error + unit" where
  "WriteTask_parse err errors data =
     (case err of
        Some e \<Rightarrow> Inl e
      | None \<Rightarrow>
          if length errors > 0 then Inl (Error (join '';'' errors))
          else let data' = trim data in
            if successRE_exec data' then Inr ()
            else Inl (Error (''No success message: '' @ data')))"

section \<open>The worker process supervisor\<close>

subsection \<open>Values and promises\<close>

text \<open>
  The values a reader can return: \<^verbatim>\<open>input.trim()\<close> is a string, \<^verbatim>\<open>JSON.parse(input)\<close> any
  JSON value. An array carries its elements and the named properties assigned to it (an
  array is an object, and \<^verbatim>\<open>result['warnings'] = ...\<close> on it adds such a property).
\<close>

datatype jsval =
    JUndefined
  | JNull
  | JBool bool
  | JNum real
  | JStr string
  | JArr "jsval list" "(string \<times> jsval) list"
  | JObj "(string \<times> jsval) list"

fun typeof :: "jsval \<Rightarrow> string" where
  "typeof JUndefined = ''undefined''"
| "typeof JNull = ''object''"
| "typeof (JBool b) = ''boolean''"
| "typeof (JNum n) = ''number''"
| "typeof (JStr s) = ''string''"
| "typeof (JArr xs ps) = ''object''"
| "typeof (JObj ps) = ''object''"

text \<open>Assignment to a property of an association list: an existing key keeps its place.\<close>

fun assign :: "string \<Rightarrow> jsval \<Rightarrow> (string \<times> jsval) list \<Rightarrow> (string \<times> jsval) list" where
  "assign k v [] = [(k, v)]"
| "assign k v ((k', v') # ps) = (if k = k' then (k, v) # ps else (k', v') # assign k v ps)"

text \<open>
  \<^verbatim>\<open>o[k] = v\<close>: a TypeError on \<^verbatim>\<open>null\<close> and \<^verbatim>\<open>undefined\<close>; on the other primitives the
  assignment is lost (the supervisor assigns only when \<^verbatim>\<open>typeof\<close> says \<^verbatim>\<open>'object'\<close>).
\<close>

fun setProperty :: "jsval \<Rightarrow> string \<Rightarrow> jsval \<Rightarrow> js_error + jsval" where
  "setProperty JNull k v =
     Inl (TypeError (''Cannot set properties of null (setting '' @ [CHR 0x27] @ k @ [CHR 0x27] @ '')''))"
| "setProperty JUndefined k v =
     Inl (TypeError (''Cannot set properties of undefined (setting '' @
                     [CHR 0x27] @ k @ [CHR 0x27] @ '')''))"
| "setProperty (JObj ps) k v = Inr (JObj (assign k v ps))"
| "setProperty (JArr xs ps) k v = Inr (JArr xs (assign k v ps))"
| "setProperty x k v = Inr x"

text \<open>
  The completion slot of a promise: the first \<^verbatim>\<open>resolve\<close> or \<^verbatim>\<open>reject\<close> settles it, a later
  one does nothing.
\<close>

datatype settlement = Pending | Resolved jsval | Rejected jsval

datatype console_line = ConsoleLog string | ConsoleError string | ConsoleDir "string list"

text \<open>
  \<^verbatim>\<open>class DeferredReader\<close>: the reader, the warnings and the promise, which is an index
  into the store of promises (the caller holds the promise after the reader has left the
  queue).
\<close>

record DeferredReader =
  reader :: "string \<Rightarrow> js_error + jsval"
  warnings :: "string list"
  promise :: nat

text \<open>
  \<^verbatim>\<open>class ExifToolProcess\<close>. \<open>stdin\<close> lists what was written to the worker, \<open>console\<close>
  what was printed, \<open>uncaught\<close> the exceptions that left an event handler.
\<close>

record ExifToolProcess =
  ended :: bool
  buff :: string
  readers :: "DeferredReader list"
  promises :: "settlement list"
  stdin :: "string list"
  console :: "console_line list"
  uncaught :: "js_error list"

definition ready :: string where
  "ready = ''{ready}''"

definition settle :: "nat \<Rightarrow> settlement \<Rightarrow> ExifToolProcess \<Rightarrow> ExifToolProcess" where
  "settle p x s =
     (if p < length (promises s) \<and> promises s ! p = Pending
      then s\<lparr>promises := (promises s)[p := x]\<rparr> else s)"

text \<open>\<^verbatim>\<open>StringReader\<close>, and \<^verbatim>\<open>MetadataReader\<close> over \<^verbatim>\<open>JSON.parse\<close>, which is a parameter.\<close>

definition StringReader :: "string \<Rightarrow> js_error + jsval" where
  "StringReader input = Inr (JStr (trim input))"

definition MetadataReader :: "(string \<Rightarrow> js_error + jsval) \<Rightarrow> string \<Rightarrow> js_error + jsval" where
  "MetadataReader JSON_parse input = JSON_parse input"

subsection \<open>The operations\<close>

text \<open>
  \<^verbatim>\<open>DeferredReader.apply(input)\<close>. The pair is the exception thrown, if any, and the state
  it leaves.
\<close>

definition DeferredReader_apply ::
    "DeferredReader \<Rightarrow> string \<Rightarrow> ExifToolProcess \<Rightarrow> js_error option \<times> ExifToolProcess" where
  "DeferredReader_apply r input s =
     (case reader r input of
        Inl e \<Rightarrow> (Some e, s)
      | Inr result \<Rightarrow>
          if length (warnings r) > 0 then
            if typeof result = ''object'' then
              (case setProperty result ''warnings'' (JArr (map JStr (warnings r)) []) of
                 Inl e \<Rightarrow> (Some e, s)
               | Inr result' \<Rightarrow> (None, settle (promise r) (Resolved result') s))
            else
              (None, settle (promise r) (Resolved result)
                       (s\<lparr>console := console s @ [ConsoleDir (warnings r)]\<rparr>))
          else (None, settle (promise r) (Resolved result) s))"

text \<open>\<^verbatim>\<open>execute(reader, ...cmds)\<close>: the new promise and the state.\<close>

definition execute ::
    "(string \<Rightarrow> js_error + jsval) \<Rightarrow> string list \<Rightarrow> ExifToolProcess \<Rightarrow> nat \<times> ExifToolProcess" where
  "execute rd cmds s =
     (let p = length (promises s);
          deferredReader = \<lparr>reader = rd, warnings = [], promise = p\<rparr>
      in (p, s\<lparr>readers := readers s @ [deferredReader],
                 promises := promises s @ [Pending],
                 stdin := stdin s @ [join [CHR 0x0A] (cmds @ [''-execute'', []])]\<rparr>))"

definition onError :: "string \<Rightarrow> ExifToolProcess \<Rightarrow> ExifToolProcess" where
  "onError error s =
     (case readers s of
        [] \<Rightarrow> s\<lparr>console := console s @
                 [ConsoleError (''Error from ExifTool without any readers: '' @ error)]\<rparr>
      | r # rs \<Rightarrow> s\<lparr>readers := r\<lparr>warnings := warnings r @ [error]\<rparr> # rs\<rparr>)"

definition onData :: "string \<Rightarrow> ExifToolProcess \<Rightarrow> js_error option \<times> ExifToolProcess" where
  "onData data s =
     (let b = trim (buff s @ data);
          done = endsWith b ready
      in if done then
           (let payload = slice0neg b (length ready);
                s' = s\<lparr>buff := []\<rparr>
            in case readers s' of
                 r # rs \<Rightarrow> DeferredReader_apply r payload (s'\<lparr>readers := rs\<rparr>)
               | [] \<Rightarrow> (None, s'\<lparr>console := console s' @
                                 [ConsoleError (''No reader for payload '' @ payload)]\<rparr>))
         else (None, s\<lparr>buff := b\<rparr>))"

text \<open>
  The handler of the worker's \<^verbatim>\<open>close\<close> event; \<open>code\<close> is the exit code as printed. The
  loop rejects every reader of the queue and leaves the queue as it is.
\<close>

definition onClose :: "string \<Rightarrow> ExifToolProcess \<Rightarrow> ExifToolProcess" where
  "onClose code s =
     (fold (\<lambda>r. settle (promise r) (Rejected (JStr ''ExifTool closed''))) (readers s)
        (s\<lparr>console := console s @ [ConsoleLog (''ExifTool exited with code '' @ code)]\<rparr>))
     \<lparr>ended := True\<rparr>"

text \<open>
  The constructor: the fields' initial values, then \<^verbatim>\<open>this.execute(StringReader, '-ver')\<close>
  for the version promise, which is promise 0.
\<close>

definition fresh :: ExifToolProcess where
  "fresh = \<lparr>ended = False, buff = [], readers = [], promises = [], stdin = [],
            console = [], uncaught = []\<rparr>"

definition constructor :: ExifToolProcess where
  "constructor = snd (execute StringReader [''-ver''] fresh)"

text \<open>
  What can happen to a supervisor: a call of \<^verbatim>\<open>execute\<close> (through \<^verbatim>\<open>read\<close>), a chunk on the
  worker's output or error stream, the worker's exit. An exception that leaves a handler
  is recorded (for Node it is an uncaught exception); the state the handler had reached
  stays.
\<close>

datatype event =
    Execute "string \<Rightarrow> js_error + jsval" "string list"
  | Data string
  | Err string
  | Close string

fun step :: "ExifToolProcess \<Rightarrow> event \<Rightarrow> ExifToolProcess" where
  "step s (Execute rd cmds) = snd (execute rd cmds s)"
| "step s (Data d) =
     (case onData d s of
        (None, s') \<Rightarrow> s'
      | (Some e, s') \<Rightarrow> s'\<lparr>uncaught := uncaught s' @ [e]\<rparr>)"
| "step s (Err e) = onError e s"
| "step s (Close code) = onClose code s"

definition run :: "ExifToolProcess \<Rightarrow> event list \<Rightarrow> ExifToolProcess" where
  "run s evs = foldl step s evs"

text \<open>
  The queue of a supervisor that has only been driven through its operations: the readers'
  promises are distinct entries of the store, and while the worker is alive they are all
  unsettled.
\<close>

definition queue_ok :: "ExifToolProcess \<Rightarrow> bool" where
  "queue_ok s =
     (distinct (map promise (readers s)) \<and>
      list_all (\<lambda>r. promise r < length (promises s)) (readers s) \<and>
      (ended s \<or> list_all (\<lambda>r. promises s ! promise r = Pending) (readers s)))"

fun isData :: "event \<Rightarrow> bool" where
  "isData (Data d) = True"
| "isData ev = False"

text \<open>
  An instance of the parameter \<^verbatim>\<open>JSON.parse\<close> for the examples: it is \<^verbatim>\<open>JSON.parse\<close> at the
  empty text (a SyntaxError) and at the two texts below, and the examples apply it to
  these three texts only.
\<close>

text \<open>
  A reply to a read as the worker sends it, the two chunks in which it arrives, cut after
  the blank of \<^verbatim>\<open>Canon EOS\<close>, and the text with that blank missing.
\<close>

definition sample_sent_text :: string where
  \<open>sample_sent_text = ''[{"SourceFile":"/a.jpg","Model":"Canon EOS"}]'' @ [CHR 0x0A]\<close>

definition sample_chunk1 :: string where
  \<open>sample_chunk1 = ''[{"SourceFile":"/a.jpg","Model":"Canon ''\<close>

definition sample_chunk2 :: string where
  \<open>sample_chunk2 = ''EOS"}]'' @ [CHR 0x0A] @ ''{ready}'' @ [CHR 0x0A]\<close>

definition sample_joined_text :: string where
  \<open>sample_joined_text = ''[{"SourceFile":"/a.jpg","Model":"CanonEOS"}]'' @ [CHR 0x0A]\<close>

definition sample_reply_text :: string where
  \<open>sample_reply_text =
     ''[{"SourceFile":"C:/a.jpg","Make":"NULL","Model":" null ","GPSLatitude":0,"GPSLongitude":0,"GPSAltitude":12}]''\<close>

definition sample_raw :: jsval where
  "sample_raw =
     JObj [(''SourceFile'', JStr ''C:/a.jpg''), (''Make'', JStr ''NULL''),
           (''Model'', JStr '' null ''), (''GPSLatitude'', JNum 0),
           (''GPSLongitude'', JNum 0), (''GPSAltitude'', JNum 12)]"

definition sample_reply :: jsval where
  "sample_reply = JArr [sample_raw] []"

definition JSON_parse_sample :: "string \<Rightarrow> js_error + jsval" where
  "JSON_parse_sample s =
     (if s = sample_joined_text
      then Inr (JArr [JObj [(''SourceFile'', JStr ''/a.jpg''), (''Model'', JStr ''CanonEOS'')]] [])
      else if s = sample_reply_text then Inr sample_reply
      else Inl (SyntaxError ''Unexpected end of JSON input''))"

section \<open>Read Task: decoding a reply\<close>

subsection \<open>Strings and regular expressions of the Read Task\<close>

fun str_includes :: "string \<Rightarrow> string \<Rightarrow> bool" where
  "str_includes [] t = (t = [])"
| "str_includes (c # cs) t = (startsWith (c # cs) t \<or> str_includes cs t)"

definition toLowerCase :: "char \<Rightarrow> char" where
  "toLowerCase c =
     (case map_of (zip ''ABCDEFGHIJKLMNOPQRSTUVWXYZ'' ''abcdefghijklmnopqrstuvwxyz'') c of
        Some l \<Rightarrow> l
      | None \<Rightarrow> c)"

fun splitOn :: "char \<Rightarrow> string \<Rightarrow> string list" where
  "splitOn c [] = [[]]"
| "splitOn c (x # xs) =
     (if x = c then [] # splitOn c xs
      else (case splitOn c xs of y # ys \<Rightarrow> (x # y) # ys | [] \<Rightarrow> [[x]]))"

definition PassthroughTags :: "string list" where
  "PassthroughTags =
     [''ExifToolVersion'', ''DateStampMode'', ''Sharpness'', ''Firmware'', ''DateDisplayFormat'']"

definition NullIsh :: "string list" where
  "NullIsh = [''undef'', ''null'', ''undefined'']"

definition nullish :: "jsval \<Rightarrow> bool" where
  "nullish s =
     (case s of
        JUndefined \<Rightarrow> True
      | JNull \<Rightarrow> True
      | JStr x \<Rightarrow> trim x \<in> set NullIsh
      | _ \<Rightarrow> False)"

definition MaybeDateOrTimeRe_test :: "string \<Rightarrow> bool" where
  "MaybeDateOrTimeRe_test s =
     (let l = map toLowerCase s
      in str_includes l ''when'' \<or> str_includes l ''date'' \<or> str_includes l ''time'' \<or>
         str_includes l ''subsec'' \<or> str_includes l ''creat'' \<or> str_includes l ''modif'')"

definition isUtcTagName :: "string \<Rightarrow> bool" where
  "isUtcTagName tagName = (str_includes tagName ''UTC'' \<or> startsWith tagName ''GPS'')"

subsection \<open>Decoded values\<close>

text \<open>
  Modelled from the spec: the classes of \<^verbatim>\<open>./ExifDateTime\<close>, \<^verbatim>\<open>./ExifTime\<close>, \<^verbatim>\<open>./ExifDate\<close> and
  \<^verbatim>\<open>./BinaryField\<close>, which are not among the sources. A date-and-time value is an absolute
  instant shown in a zone, with the flag that says the zone was inferred rather than read;
  of the other three only the identity matters here, which is the text they were read from.
\<close>

record ExifDateTime =
  instant :: int
  zone :: "string option"
  inferredZone :: "bool option"

datatype ExifTime = ExifTime string

datatype ExifDate = ExifDate string

datatype BinaryField = BinaryField string

text \<open>
  Modelled from the spec: \<^verbatim>\<open>ExifDateTime.setZone\<close> rewrites the value into the given zone; it
  preserves the absolute instant and changes only the display zone.
\<close>

definition setZone :: "ExifDateTime \<Rightarrow> string \<Rightarrow> ExifDateTime" where
  "setZone d z = d\<lparr>zone := Some z\<rparr>"

text \<open>
  What \<^verbatim>\<open>#parseTag\<close> returns: the raw value as it is, an array or an object of decoded
  values, or an instance of one of the four classes.
\<close>

datatype tagval =
    TRaw jsval
  | TArr "tagval list"
  | TObj "(string \<times> tagval) list"
  | TDateTime ExifDateTime
  | TTime ExifTime
  | TDate ExifDate
  | TBinary BinaryField

text \<open>\<^verbatim>\<open>v == null\<close>.\<close>

definition isNull :: "tagval \<Rightarrow> bool" where
  "isNull v = (v = TRaw JUndefined \<or> v = TRaw JNull)"

type_synonym Tags = "string \<rightharpoonup> tagval"

record TzSrc =
  tz :: string
  src :: string

text \<open>The result of \<^verbatim>\<open>parseGPSLocation\<close>; both fields are read with \<^verbatim>\<open>?.\<close> and \<^verbatim>\<open>??\<close>.\<close>

record GpsLocation =
  gps_invalid :: "bool option"
  gps_result :: "(string \<times> jsval) list option"

subsection \<open>Options and collaborators\<close>

text \<open>
  The options the Read Task itself reads; \<^verbatim>\<open>geoTz\<close> is the injected lookup and can throw.
\<close>

record ReadTaskOptions =
  backfillTimezones :: bool
  defaultVideosToUTC :: bool
  preferTimezoneInferenceFromGps :: bool
  geoTz :: "jsval \<Rightarrow> jsval \<Rightarrow> js_error + jsval"

text \<open>
  The functions the Read Task calls that are not among the sources (\<^verbatim>\<open>JSON\<close>, \<^verbatim>\<open>node:path\<close>,
  \<^verbatim>\<open>./GPS\<close>, \<^verbatim>\<open>./Timezones\<close>, \<^verbatim>\<open>./BinaryField\<close>, \<^verbatim>\<open>./Boolean\<close>, the date classes,
  \<^verbatim>\<open>./OnlyZerosRE\<close>, \<^verbatim>\<open>./ErrorsAndWarnings\<close>) are parameters. The three date parsers may
  throw; a zone is named by its name.
\<close>

record collaborators =
  JSON_parse :: "string \<Rightarrow> js_error + jsval"
  JSON_stringify :: "jsval \<Rightarrow> string"
  Number_toString :: "real \<Rightarrow> string"
  path_resolve :: "string \<Rightarrow> string"
  parseGPSLocation :: "jsval \<Rightarrow> ReadTaskOptions \<Rightarrow> GpsLocation option"
  extractTzOffsetFromTags :: "jsval \<Rightarrow> ReadTaskOptions \<Rightarrow> TzSrc option"
  extractTzOffsetFromDatestamps :: "jsval \<Rightarrow> ReadTaskOptions \<Rightarrow> TzSrc option"
  extractTzOffsetFromUTCOffset :: "jsval \<Rightarrow> TzSrc option"
  extractTzOffsetFromTimeStamp :: "jsval \<Rightarrow> ReadTaskOptions \<Rightarrow> TzSrc option"
  normalizeZone :: "jsval \<Rightarrow> string option"
  BinaryField_fromRawValue :: "string \<Rightarrow> BinaryField option"
  toBoolean :: "string \<Rightarrow> bool option"
  ExifDateTime_from :: "string \<Rightarrow> string option \<Rightarrow> js_error + ExifDateTime option"
  ExifTime_fromEXIF :: "string \<Rightarrow> string option \<Rightarrow> js_error + ExifTime option"
  ExifDate_from :: "string \<Rightarrow> js_error + ExifDate option"
  OnlyZerosRE_test :: "string \<Rightarrow> bool"
  errorsAndWarnings :: "string list \<Rightarrow> string list \<Rightarrow> Tags \<Rightarrow> string list \<times> string list"

text \<open>
  \<^verbatim>\<open>class ReadTask\<close>: the constructor's arguments and the error and warning lists of the
  base class.
\<close>

record ReadTask =
  sourceFile :: string
  args :: "string list"
  options :: ReadTaskOptions
  task_errors :: "string list"
  task_warnings :: "string list"

subsection \<open>Reading JavaScript values\<close>

text \<open>
  \<^verbatim>\<open>o[k]\<close> for the names the Read Task reads (none is an index or \<^verbatim>\<open>length\<close>): a TypeError
  on \<^verbatim>\<open>null\<close> and \<^verbatim>\<open>undefined\<close>, and \<^verbatim>\<open>undefined\<close> for a name the value does not have.
  \<^verbatim>\<open>o?.[k]\<close> gives \<^verbatim>\<open>undefined\<close> instead of the TypeError.
\<close>

fun getProperty :: "jsval \<Rightarrow> string \<Rightarrow> js_error + jsval" where
  "getProperty JNull k =
     Inl (TypeError (''Cannot read properties of null (reading '' @ [CHR 0x27] @ k @ [CHR 0x27] @ '')''))"
| "getProperty JUndefined k =
     Inl (TypeError (''Cannot read properties of undefined (reading '' @
                     [CHR 0x27] @ k @ [CHR 0x27] @ '')''))"
| "getProperty (JObj ps) k = Inr (case map_of ps k of Some v \<Rightarrow> v | None \<Rightarrow> JUndefined)"
| "getProperty (JArr xs ps) k = Inr (case map_of ps k of Some v \<Rightarrow> v | None \<Rightarrow> JUndefined)"
| "getProperty x k = Inr JUndefined"

definition optProperty :: "jsval \<Rightarrow> string \<Rightarrow> jsval" where
  "optProperty v k = (case getProperty v k of Inl e \<Rightarrow> JUndefined | Inr x \<Rightarrow> x)"

text \<open>\<^verbatim>\<open>v[0]\<close>: the first element of an array, the first character of a string.\<close>

fun element0 :: "jsval \<Rightarrow> js_error + jsval" where
  "element0 JNull =
     Inl (TypeError (''Cannot read properties of null (reading '' @ [CHR 0x27] @ ''0'' @ [CHR 0x27] @ '')''))"
| "element0 JUndefined =
     Inl (TypeError (''Cannot read properties of undefined (reading '' @
                     [CHR 0x27] @ ''0'' @ [CHR 0x27] @ '')''))"
| "element0 (JArr xs ps) = Inr (case xs of [] \<Rightarrow> JUndefined | x # _ \<Rightarrow> x)"
| "element0 (JObj ps) = Inr (case map_of ps ''0'' of Some v \<Rightarrow> v | None \<Rightarrow> JUndefined)"
| "element0 (JStr s) = Inr (case s of [] \<Rightarrow> JUndefined | c # _ \<Rightarrow> JStr [c])"
| "element0 x = Inr JUndefined"

text \<open>The decimal numeral of an index, for the keys of an array's elements.\<close>

function decimal :: "nat \<Rightarrow> string" where
  "decimal n =
     (if n < 10 then [''0123456789'' ! n] else decimal (n div 10) @ [''0123456789'' ! (n mod 10)])"
  by pat_completeness auto
termination
  by (relation "measure id") auto

text \<open>\<^verbatim>\<open>Object.entries(v)\<close>: own enumerable properties, the indices first.\<close>

fun entries :: "jsval \<Rightarrow> (string \<times> jsval) list" where
  "entries (JObj ps) = ps"
| "entries (JArr xs ps) = zip (map decimal [0..<length xs]) xs @ ps"
| "entries (JStr s) = zip (map decimal [0..<length s]) (map (\<lambda>c. JStr [c]) s)"
| "entries x = []"

text \<open>
  \<^verbatim>\<open>String(v)\<close>. An array prints its elements joined by commas, \<^verbatim>\<open>null\<close> and \<^verbatim>\<open>undefined\<close>
  among them as nothing; an object prints as \<^verbatim>\<open>[object Object]\<close> (an own \<^verbatim>\<open>toString\<close>
  property, with which \<^verbatim>\<open>String\<close> throws, is not modelled).
\<close>

fun String_of :: "(real \<Rightarrow> string) \<Rightarrow> jsval \<Rightarrow> string" where
  "String_of f JUndefined = ''undefined''"
| "String_of f JNull = ''null''"
| "String_of f (JBool b) = (if b then ''true'' else ''false'')"
| "String_of f (JNum n) = f n"
| "String_of f (JStr s) = s"
| "String_of f (JArr xs ps) =
     join '','' (map (\<lambda>x. if x = JNull \<or> x = JUndefined then [] else String_of f x) xs)"
| "String_of f (JObj ps) = ''[object Object]''"

text \<open>\<^verbatim>\<open>"" + error\<close>.\<close>

fun error_toString :: "js_error \<Rightarrow> string" where
  "error_toString (Error m) = (if m = [] then ''Error'' else ''Error: '' @ m)"
| "error_toString (TypeError m) = (if m = [] then ''TypeError'' else ''TypeError: '' @ m)"
| "error_toString (SyntaxError m) = (if m = [] then ''SyntaxError'' else ''SyntaxError: '' @ m)"

subsection \<open>The Read Task\<close>

text \<open>
  The private fields a parse fills: the first element of the reply, its degrouped view, and
  the values the lazy \<^verbatim>\<open>#extractGpsMetadata\<close> and \<^verbatim>\<open>#extractTzOffset\<close> hold once forced.
\<close>

record ReadTaskState =
  raw :: jsval
  rawDegrouped :: jsval
  gps :: "GpsLocation option"
  tzSrc :: "TzSrc option"

definition degroup :: "ReadTask \<Rightarrow> bool" where
  "degroup t = (''-G'' \<in> set (args t))"

definition tagName :: "ReadTask \<Rightarrow> string \<Rightarrow> string" where
  "tagName t k =
     (if degroup t then (case splitOn CHR '':'' k of a # b # _ \<Rightarrow> b | _ \<Rightarrow> k) else k)"

definition isVideo :: "collaborators \<Rightarrow> jsval \<Rightarrow> bool" where
  "isVideo env rd = startsWith (String_of (Number_toString env) (optProperty rd ''MIMEType'')) ''video/''"

definition defaultToUTC :: "collaborators \<Rightarrow> ReadTask \<Rightarrow> jsval \<Rightarrow> bool" where
  "defaultToUTC env t rd = (isVideo env rd \<and> defaultVideosToUTC (options t))"

definition gpsIsInvalid :: "GpsLocation option \<Rightarrow> bool" where
  "gpsIsInvalid g =
     (case g of None \<Rightarrow> False
      | Some l \<Rightarrow> (case gps_invalid l of None \<Rightarrow> False | Some b \<Rightarrow> b))"

definition gpsResults :: "GpsLocation option \<Rightarrow> (string \<times> jsval) list" where
  "gpsResults g =
     (if gpsIsInvalid g then []
      else case g of None \<Rightarrow> []
           | Some l \<Rightarrow> (case gps_result l of None \<Rightarrow> [] | Some r \<Rightarrow> r))"

text \<open>
  \<^verbatim>\<open>#extractTzOffsetFromGps\<close>: the zone, and the warning it pushes when the lookup throws.
\<close>

definition extractTzOffsetFromGps ::
    "collaborators \<Rightarrow> ReadTask \<Rightarrow> jsval \<Rightarrow> GpsLocation option \<Rightarrow> TzSrc option \<times> string list" where
  "extractTzOffsetFromGps env t rd g =
     (let r = (case g of None \<Rightarrow> None | Some l \<Rightarrow> gps_result l);
          lat = (case r of None \<Rightarrow> JUndefined | Some ps \<Rightarrow> optProperty (JObj ps) ''GPSLatitude'');
          lon = (case r of None \<Rightarrow> JUndefined | Some ps \<Rightarrow> optProperty (JObj ps) ''GPSLongitude'')
      in if g = None \<or> (case g of None \<Rightarrow> False | Some l \<Rightarrow> gps_invalid l = Some True) \<or>
            lat = JUndefined \<or> lat = JNull \<or> lon = JUndefined \<or> lon = JNull
         then (None, [])
         else case normalizeZone env (optProperty rd ''GeolocationTimeZone'') of
                Some name \<Rightarrow> (Some \<lparr>tz = name, src = ''GeolocationTimeZone''\<rparr>, [])
              | None \<Rightarrow>
                  (case geoTz (options t) lat lon of
                     Inl error \<Rightarrow>
                       (None, [''Failed to determine timezone from GPS coordinates: '' @
                               error_toString error])
                   | Inr z \<Rightarrow>
                       (case normalizeZone env z of
                          Some name \<Rightarrow> (Some \<lparr>tz = name, src = ''GPSLatitude/GPSLongitude''\<rparr>, [])
                        | None \<Rightarrow> (None, []))))"

text \<open>\<^verbatim>\<open>a ?? b\<close> on optional values.\<close>

definition orElse :: "'a option \<Rightarrow> 'a option \<Rightarrow> 'a option" where
  "orElse a b = (case a of Some x \<Rightarrow> Some x | None \<Rightarrow> b)"

text \<open>
  \<^verbatim>\<open>#extractTzOffset\<close>. The GPS source is lazy: it is computed, and its warning pushed, only
  when the cascade reaches it, and once.
\<close>

definition extractTzOffset ::
    "collaborators \<Rightarrow> ReadTask \<Rightarrow> jsval \<Rightarrow> GpsLocation option \<Rightarrow> TzSrc option \<times> string list" where
  "extractTzOffset env t rd g =
     (let fromGps = extractTzOffsetFromGps env t rd g;
          fromTags = extractTzOffsetFromTags env rd (options t)
      in if preferTimezoneInferenceFromGps (options t) \<and> fst fromGps \<noteq> None then fromGps
         else
           (orElse fromTags
             (orElse (fst fromGps)
               (orElse (extractTzOffsetFromDatestamps env rd (options t))
                 (orElse (if defaultToUTC env t rd
                          then Some \<lparr>tz = ''UTC'', src = ''defaultVideosToUTC''\<rparr> else None)
                   (orElse (extractTzOffsetFromUTCOffset env rd)
                     (extractTzOffsetFromTimeStamp env rd (options t)))))),
            if preferTimezoneInferenceFromGps (options t) \<or> fromTags = None
            then snd fromGps else []))"

text \<open>
  The branch of \<^verbatim>\<open>#parseTag\<close> for a string, inside the \<^verbatim>\<open>try\<close>: the decoded value, or the
  exception a date parser threw. \<open>st\<close> holds the memoised zone that \<^verbatim>\<open>this.#tz()\<close> returns.
\<close>

definition parseTag_string ::
    "collaborators \<Rightarrow> ReadTask \<Rightarrow> ReadTaskState \<Rightarrow> string \<Rightarrow> string \<Rightarrow> js_error + tagval" where
  "parseTag_string env t st name v =
     (case BinaryField_fromRawValue env v of
        Some b \<Rightarrow> Inr (TBinary b)
      | None \<Rightarrow>
     (case (if endsWith name ''Valid'' then toBoolean env v else None) of
        Some b \<Rightarrow> Inr (TRaw (JBool b))
      | None \<Rightarrow>
          if MaybeDateOrTimeRe_test name \<and> \<not> OnlyZerosRE_test env v then
            (let toUTC = defaultToUTC env t (rawDegrouped st);
                 defaultTz = map_option tz (tzSrc st);
                 z = (if isUtcTagName name \<or> toUTC then Some ''UTC''
                      else if backfillTimezones (options t) then defaultTz else None);
                 keyIncludesTime =
                   (str_includes (map toLowerCase name) ''subsec'' \<or>
                    str_includes (map toLowerCase name) ''time'');
                 keyIncludesDate = str_includes (map toLowerCase name) ''date'';
                 keyIncludesWhen = str_includes (map toLowerCase name) ''when''
             in case (if keyIncludesTime \<or> keyIncludesDate \<or> keyIncludesWhen
                      then ExifDateTime_from env v z else Inr None) of
                  Inl e \<Rightarrow> Inl e
                | Inr (Some d) \<Rightarrow>
                    (case defaultTz of
                       Some dz \<Rightarrow>
                         if backfillTimezones (options t) \<and> toUTC \<and> \<not> isUtcTagName name \<and>
                            inferredZone d = Some True
                         then Inr (TDateTime (setZone d dz))
                         else Inr (TDateTime d)
                     | None \<Rightarrow> Inr (TDateTime d))
                | Inr None \<Rightarrow>
                (case (if keyIncludesTime \<or> keyIncludesWhen
                       then ExifTime_fromEXIF env v z else Inr None) of
                   Inl e \<Rightarrow> Inl e
                 | Inr (Some x) \<Rightarrow> Inr (TTime x)
                 | Inr None \<Rightarrow>
                 (case (if keyIncludesDate \<or> keyIncludesWhen
                        then ExifDate_from env v else Inr None) of
                    Inl e \<Rightarrow> Inl e
                  | Inr (Some x) \<Rightarrow> Inr (TDate x)
                  | Inr None \<Rightarrow> Inr (TRaw (JStr v)))))
          else Inr (TRaw (JStr v))))"

text \<open>
  The block of \<^verbatim>\<open>#parseTag\<close> for a name that starts with \<^verbatim>\<open>GPS\<close> or \<^verbatim>\<open>Geolocation\<close>: what it
  returns, when it returns (nothing for invalid coordinates, the parsed value if there is
  one); otherwise the value is parsed like any other tag.
\<close>

definition parseTag_gps :: "ReadTaskState \<Rightarrow> string \<Rightarrow> tagval option" where
  "parseTag_gps st name =
     (if startsWith name ''GPS'' \<or> startsWith name ''Geolocation'' then
        if gpsIsInvalid (gps st) then Some (TRaw JUndefined)
        else (case map_of (gpsResults (gps st)) name of
                None \<Rightarrow> None
              | Some parsed \<Rightarrow>
                  if parsed \<noteq> JUndefined \<and> parsed \<noteq> JNull then Some (TRaw parsed) else None)
      else None)"

text \<open>
  \<^verbatim>\<open>#parseTag(tagName, value)\<close>: the decoded value and the warnings pushed. Only the string
  branch can throw; the \<^verbatim>\<open>catch\<close> turns its exception into a warning and the raw value.
\<close>

fun parseTag ::
    "collaborators \<Rightarrow> ReadTask \<Rightarrow> ReadTaskState \<Rightarrow> string \<Rightarrow> jsval \<Rightarrow> tagval \<times> string list" where
  "parseTag env t st name v =
     (if nullish v then (TRaw JUndefined, [])
      else if name \<in> set PassthroughTags then (TRaw v, [])
      else case parseTag_gps st name of
             Some r \<Rightarrow> (r, [])
           | None \<Rightarrow>
          (case v of
             JArr xs ps \<Rightarrow>
               (let rs = map (parseTag env t st name) xs
                in (TArr (map fst rs), concat (map snd rs)))
           | JObj ps \<Rightarrow>
               (let rs = map (\<lambda>kv. (fst kv, parseTag env t st (name @ ''.'' @ fst kv) (snd kv))) ps
                in (TObj (map (\<lambda>r. (fst r, fst (snd r))) rs), concat (map (\<lambda>r. snd (snd r)) rs)))
           | JStr s \<Rightarrow>
               (case parseTag_string env t st name s of
                  Inr r \<Rightarrow> (r, [])
                | Inl e \<Rightarrow>
                    (TRaw v, [''Failed to parse '' @ name @ '' with value '' @
                              JSON_stringify env v @ '': '' @ error_toString e]))
           | _ \<Rightarrow> (TRaw v, [])))"

declare parseTag.simps [simp del]

text \<open>A list of strings as a value of the Tag Record.\<close>

definition strings :: "string list \<Rightarrow> tagval" where
  "strings xs = TRaw (JArr (map JStr xs) [])"

text \<open>
  One turn of the loop of \<^verbatim>\<open>#parseTags\<close> over \<^verbatim>\<open>Object.entries(this.#raw)\<close>: the record
  and the warnings so far, after the entry \<open>(key, value)\<close>.
\<close>

definition parseEntry ::
    "collaborators \<Rightarrow> ReadTask \<Rightarrow> ReadTaskState \<Rightarrow> string \<times> jsval \<Rightarrow> Tags \<times> string list
       \<Rightarrow> Tags \<times> string list" where
  "parseEntry env t st e acc =
     (let k = tagName t (fst e);
          r = parseTag env t st k (snd e)
      in (if \<not> isNull (fst r) then (fst acc)(fst e \<mapsto> fst r) else fst acc, snd acc @ snd r))"

text \<open>
  The first statement of \<^verbatim>\<open>#parseTags\<close>: the value of \<^verbatim>\<open>this.#rawDegrouped\<close>, which is
  \<^verbatim>\<open>this.#raw\<close> itself when the task does not degroup.
\<close>

definition degroupRaw :: "ReadTask \<Rightarrow> jsval \<Rightarrow> jsval" where
  "degroupRaw t rw =
     (if degroup t
      then JObj (fold (\<lambda>e ps. assign (tagName t (fst e)) (snd e) ps) (entries rw) [])
      else rw)"

text \<open>
  The rest of \<^verbatim>\<open>#parseTags()\<close>, with \<^verbatim>\<open>this.#raw\<close> as an argument: the Tag Record, and the task with the
  warnings pushed. The record starts as the constructor leaves it.
\<close>

definition parseTags :: "collaborators \<Rightarrow> ReadTask \<Rightarrow> jsval \<Rightarrow> Tags \<times> ReadTask" where
  "parseTags env t rw =
     (let rd = degroupRaw t rw;
          g = parseGPSLocation env rd (options t);
          z = extractTzOffset env t rd g;
          st = \<lparr>raw = rw, rawDegrouped = rd, gps = g, tzSrc = fst z\<rparr>;
          tags0 = [''SourceFile'' \<mapsto> TRaw (JStr (sourceFile t)), ''errors'' \<mapsto> strings (task_errors t)];
          tags1 = (case fst z of
                     Some x \<Rightarrow> tags0(''tz'' \<mapsto> TRaw (JStr (tz x)), ''tzSource'' \<mapsto> TRaw (JStr (src x)))
                   | None \<Rightarrow> tags0);
          done = fold (parseEntry env t st) (entries rw) (tags1, task_warnings t @ snd z);
          ew = errorsAndWarnings env (task_errors t) (snd done) (fst done)
      in ((fst done)(''errors'' \<mapsto> strings (fst ew), ''warnings'' \<mapsto> strings (snd ew)),
          t\<lparr>task_warnings := snd done\<rparr>))"

text \<open>
  \<^verbatim>\<open>parse(data, err)\<close>, with \<^verbatim>\<open>JSON.parse(data)[0]\<close> first. \<^verbatim>\<open>path.resolve\<close> throws a
  TypeError on an argument that is not a string (its message, which goes on to name the
  value received, is abridged).
\<close>

definition JSON_parse_0 :: "collaborators \<Rightarrow> string \<Rightarrow> js_error + jsval" where
  "JSON_parse_0 env data = (case JSON_parse env data of Inl e \<Rightarrow> Inl e | Inr v \<Rightarrow> element0 v)"

definition ReadTask_parse ::
    "collaborators \<Rightarrow> ReadTask \<Rightarrow> string \<Rightarrow> js_error option \<Rightarrow> js_error + Tags \<times> ReadTask" where
  "ReadTask_parse env t data err =
     (case JSON_parse_0 env data of
        Inl jsonError \<Rightarrow> Inl (case err of Some e \<Rightarrow> e | None \<Rightarrow> jsonError)
      | Inr rw \<Rightarrow>
          (case getProperty rw ''SourceFile'' of
             Inl e \<Rightarrow> Inl e
           | Inr (JStr p) \<Rightarrow>
               if path_resolve env p \<noteq> sourceFile t
               then Inl (Error (''Internal error: unexpected SourceFile of '' @ p @
                                '' for file '' @ sourceFile t))
               else Inr (parseTags env t rw)
           | Inr other \<Rightarrow>
               Inl (TypeError ''The paths[0] argument must be of type string'')))"

text \<open>
  The cascade as the specification words it: the sources are tried in a fixed order, and
  the first that yields a zone is the result. The sources, in that order: the
  GPS-derived zone when the configuration prefers it; the explicit timezone tags; the
  GPS-derived zone; the paired datestamps; UTC for a video defaulted to UTC; the UTC
  offset field; the combined timestamp.
\<close>

fun firstSuccess :: "'a option list \<Rightarrow> 'a option" where
  "firstSuccess [] = None"
| "firstSuccess (Some x # xs) = Some x"
| "firstSuccess (None # xs) = firstSuccess xs"

definition cascade_spec ::
    "collaborators \<Rightarrow> ReadTask \<Rightarrow> jsval \<Rightarrow> GpsLocation option \<Rightarrow> TzSrc option" where
  "cascade_spec env t rd g =
     firstSuccess
       [if preferTimezoneInferenceFromGps (options t)
        then fst (extractTzOffsetFromGps env t rd g) else None,
        extractTzOffsetFromTags env rd (options t),
        fst (extractTzOffsetFromGps env t rd g),
        extractTzOffsetFromDatestamps env rd (options t),
        if defaultToUTC env t rd then Some \<lparr>tz = ''UTC'', src = ''defaultVideosToUTC''\<rparr> else None,
        extractTzOffsetFromUTCOffset env rd,
        extractTzOffsetFromTimeStamp env rd (options t)]"

text \<open>
  The guards of \<^verbatim>\<open>#parseTag\<close> that a string passes on its way to \<^verbatim>\<open>ExifDateTime.from\<close>: it is
  not null-ish, its name is not passed through, the GPS block does not return, it is not
  a binary marker nor a boolean of a \<^verbatim>\<open>Valid\<close> tag, its name looks like a date or time, it is
  not all zeros, and its name includes \<^verbatim>\<open>subsec\<close>, \<^verbatim>\<open>time\<close>, \<^verbatim>\<open>date\<close> or \<^verbatim>\<open>when\<close>.
\<close>

definition dateTimeLeaf :: "collaborators \<Rightarrow> ReadTaskState \<Rightarrow> string \<Rightarrow> string \<Rightarrow> bool" where
  "dateTimeLeaf env st name v =
     (\<not> nullish (JStr v) \<and> name \<notin> set PassthroughTags \<and> parseTag_gps st name = None \<and>
      BinaryField_fromRawValue env v = None \<and>
      (if endsWith name ''Valid'' then toBoolean env v else None) = None \<and>
      MaybeDateOrTimeRe_test name \<and> \<not> OnlyZerosRE_test env v \<and>
      (str_includes (map toLowerCase name) ''subsec'' \<or>
       str_includes (map toLowerCase name) ''time'' \<or>
       str_includes (map toLowerCase name) ''date'' \<or>
       str_includes (map toLowerCase name) ''when''))"

text \<open>What the caller of \<^verbatim>\<open>parse\<close> reads as \<^verbatim>\<open>tags[key]\<close>; nothing when \<^verbatim>\<open>parse\<close> threw.\<close>

definition decoded :: "js_error + Tags \<times> ReadTask \<Rightarrow> string \<Rightarrow> tagval option" where
  "decoded r key = (case r of Inl e \<Rightarrow> None | Inr x \<Rightarrow> fst x key)"

subsection \<open>An instance of the collaborators\<close>

text \<open>
  The examples below run the Read Task with these stand-ins for the collaborators. Each
  does what its original does on the inputs of the examples: \<^verbatim>\<open>path.resolve\<close> as on
  Windows for an absolute path with a drive letter, where it turns the separators that
  ExifTool writes back into backslashes; the GPS parser with the rule that latitude and
  longitude both zero are invalid; the explicit timezone tag \<^verbatim>\<open>OffsetTimeOriginal\<close>; a
  date-time parser that knows one zoneless timestamp.
\<close>

definition sample_parseGPSLocation :: "jsval \<Rightarrow> ReadTaskOptions \<Rightarrow> GpsLocation option" where
  "sample_parseGPSLocation rd opts =
     (case (optProperty rd ''GPSLatitude'', optProperty rd ''GPSLongitude'') of
        (JNum lat, JNum lon) \<Rightarrow>
          Some \<lparr>gps_invalid = Some (lat = 0 \<and> lon = 0),
                gps_result = Some [(''GPSLatitude'', JNum lat), (''GPSLongitude'', JNum lon)]\<rparr>
      | _ \<Rightarrow> None)"

definition sample_extractTzOffsetFromTags :: "jsval \<Rightarrow> ReadTaskOptions \<Rightarrow> TzSrc option" where
  "sample_extractTzOffsetFromTags rd opts =
     (if optProperty rd ''OffsetTimeOriginal'' = JStr ''+01:00''
      then Some \<lparr>tz = ''UTC+1'', src = ''OffsetTimeOriginal''\<rparr> else None)"

definition sample_normalizeZone :: "jsval \<Rightarrow> string option" where
  "sample_normalizeZone z =
     (if z = JStr ''Europe/Berlin'' then Some ''Europe/Berlin''
      else if z = JStr ''UTC'' then Some ''UTC'' else None)"

definition sample_ExifDateTime_from :: "string \<Rightarrow> string option \<Rightarrow> js_error + ExifDateTime option" where
  "sample_ExifDateTime_from v z =
     (if v = ''2020:01:01 10:00:00'' \<and> z = Some ''UTC''
      then Inr (Some \<lparr>instant = 1577872800000, zone = Some ''UTC'', inferredZone = Some True\<rparr>)
      else Inr None)"

definition sample_env :: collaborators where
  "sample_env =
     \<lparr>JSON_parse = JSON_parse_sample,
      JSON_stringify = String_of (\<lambda>n. ''0''),
      Number_toString = (\<lambda>n. ''0''),
      path_resolve = map (\<lambda>c. if c = CHR ''/'' then CHR 0x5C else c),
      parseGPSLocation = sample_parseGPSLocation,
      extractTzOffsetFromTags = sample_extractTzOffsetFromTags,
      extractTzOffsetFromDatestamps = (\<lambda>rd opts. None),
      extractTzOffsetFromUTCOffset = (\<lambda>rd. None),
      extractTzOffsetFromTimeStamp = (\<lambda>rd opts. None),
      normalizeZone = sample_normalizeZone,
      BinaryField_fromRawValue =
        (\<lambda>v. if startsWith v ''(Binary data '' then Some (BinaryField v) else None),
      toBoolean = (\<lambda>v. None),
      ExifDateTime_from = sample_ExifDateTime_from,
      ExifTime_fromEXIF = (\<lambda>v z. Inr None),
      ExifDate_from = (\<lambda>v. Inr None),
      OnlyZerosRE_test = (\<lambda>v. v \<noteq> [] \<and> list_all (\<lambda>c. c = CHR ''0'') v),
      errorsAndWarnings = (\<lambda>es ws tags. (es, ws))\<rparr>"

definition sample_options :: ReadTaskOptions where
  "sample_options =
     \<lparr>backfillTimezones = True, defaultVideosToUTC = True,
      preferTimezoneInferenceFromGps = False,
      geoTz = (\<lambda>lat lon. Inr (JStr ''Europe/Berlin''))\<rparr>"

text \<open>The task of \<^verbatim>\<open>ReadTask.for\<close> on the file \<^verbatim>\<open>C:\a.jpg\<close>.\<close>

definition sample_task :: ReadTask where
  "sample_task =
     \<lparr>sourceFile = ''C:'' @ [CHR 0x5C] @ ''a.jpg'',
      args = [''-json'', ''-api'', ''struct=0'', ''-all'', ''C:'' @ [CHR 0x5C] @ ''a.jpg''],
      options = sample_options, task_errors = [], task_warnings = []\<rparr>"

text \<open>
  A video with an explicit offset tag and a zoneless creation date, and a photo with an
  explicit offset tag and coordinates in Berlin.
\<close>

definition sample_video :: jsval where
  "sample_video =
     JObj [(''SourceFile'', JStr ''C:/v.mp4''), (''MIMEType'', JStr ''video/mp4''),
           (''OffsetTimeOriginal'', JStr ''+01:00''),
           (''CreateDate'', JStr ''2020:01:01 10:00:00'')]"

definition sample_photo :: jsval where
  "sample_photo =
     JObj [(''SourceFile'', JStr ''C:/p.jpg''), (''OffsetTimeOriginal'', JStr ''+01:00''),
           (''GPSLatitude'', JNum 52.5), (''GPSLongitude'', JNum 13.4)]"

section \<open>Properties of the string operations\<close>

lemma startsWith_iff: "startsWith s t \<longleftrightarrow> (\<exists>q. s = t @ q)"
proof
  assume "startsWith s t"
  then have "s = t @ drop (length t) s"
    unfolding startsWith_def by (metis append_take_drop_id)
  then show "\<exists>q. s = t @ q" ..
next
  assume "\<exists>q. s = t @ q"
  then show "startsWith s t" by (auto simp: startsWith_def)
qed

lemma endsWith_iff: "endsWith s t \<longleftrightarrow> (\<exists>p. s = p @ t)"
proof
  assume "endsWith s t"
  then have "s = take (length s - length t) s @ t"
    unfolding endsWith_def by (metis append_take_drop_id)
  then show "\<exists>p. s = p @ t" ..
next
  assume "\<exists>p. s = p @ t"
  then show "endsWith s t" by (auto simp: endsWith_def)
qed

lemma endsWith_slice: "endsWith s t \<Longrightarrow> s = slice0neg s (length t) @ t"
  unfolding endsWith_def slice0neg_def by (metis append_take_drop_id)

section \<open>Properties of the Write Task\<close>

lemma successRE_at_iff:
  "successRE_at s \<longleftrightarrow>
     (\<exists>q. s = ''1 image file updated'' @ q \<or> s = ''1 image files updated'' @ q)"
proof
  assume "successRE_at s"
  then obtain r where s: "s = ''1 image file'' @ r"
    and r: "startsWith r ''s updated'' \<or> startsWith r '' updated''"
    unfolding successRE_at_def by (auto simp: startsWith_iff Let_def)
  from r obtain q where "r = ''s updated'' @ q \<or> r = '' updated'' @ q"
    by (auto simp: startsWith_iff)
  with s show "\<exists>q. s = ''1 image file updated'' @ q \<or> s = ''1 image files updated'' @ q"
    by auto
next
  assume "\<exists>q. s = ''1 image file updated'' @ q \<or> s = ''1 image files updated'' @ q"
  then show "successRE_at s"
    by (auto simp: successRE_at_def startsWith_def)
qed

lemma successRE_exec_iff:
  "successRE_exec s \<longleftrightarrow>
     (\<exists>p q. s = p @ ''1 image file updated'' @ q \<or> s = p @ ''1 image files updated'' @ q)"
proof (induction s)
  case Nil
  show ?case by (simp add: successRE_at_iff)
next
  case (Cons c cs)
  show ?case (is "?L \<longleftrightarrow> ?R")
  proof
    assume ?L
    then consider "successRE_at (c # cs)" | "successRE_exec cs" by auto
    then show ?R
    proof cases
      case 1
      then obtain q where "c # cs = ''1 image file updated'' @ q \<or> c # cs = ''1 image files updated'' @ q"
        unfolding successRE_at_iff by blast
      then have "c # cs = [] @ ''1 image file updated'' @ q \<or> c # cs = [] @ ''1 image files updated'' @ q"
        by simp
      then show ?thesis by blast
    next
      case 2
      then obtain p q where "cs = p @ ''1 image file updated'' @ q \<or> cs = p @ ''1 image files updated'' @ q"
        using Cons.IH by blast
      then have "c # cs = (c # p) @ ''1 image file updated'' @ q \<or> c # cs = (c # p) @ ''1 image files updated'' @ q"
        by simp
      then show ?thesis by blast
    qed
  next
    assume ?R
    then obtain p q where pq: "c # cs = p @ ''1 image file updated'' @ q \<or> c # cs = p @ ''1 image files updated'' @ q"
      by blast
    show ?L
    proof (cases p)
      case Nil
      with pq have "successRE_at (c # cs)" unfolding successRE_at_iff by auto
      then show ?thesis by simp
    next
      case (Cons a p')
      with pq have "cs = p' @ ''1 image file updated'' @ q \<or> cs = p' @ ''1 image files updated'' @ q"
        by auto
      then have "successRE_exec cs" using Cons.IH by blast
      then show ?thesis by simp
    qed
  qed
qed

text \<open>
  Claim C5, as the code has it. A Write Task's parse succeeds exactly when no error was
  passed in, the accumulated error list is empty, and the trimmed reply contains
  \<^verbatim>\<open>1 image file updated\<close> or \<^verbatim>\<open>1 image files updated\<close> somewhere (the pattern is not anchored and
  its count is the digit 1). Otherwise it throws: the error passed in; or, for a non-empty
  error list, an error whose text is that list joined by semicolons; or
  \<^verbatim>\<open>No success message:\<close> followed by the trimmed reply.
\<close>

theorem WriteTask_parse_outcome:
  "(WriteTask_parse err errors data = Inr () \<longleftrightarrow>
      err = None \<and> errors = [] \<and>
      (\<exists>p q. trim data = p @ ''1 image file updated'' @ q \<or>
             trim data = p @ ''1 image files updated'' @ q)) \<and>
   (\<forall>e. WriteTask_parse err errors data = Inl e \<longleftrightarrow>
      err = Some e \<or>
      err = None \<and> errors \<noteq> [] \<and> e = Error (join '';'' errors) \<or>
      err = None \<and> errors = [] \<and> \<not> successRE_exec (trim data) \<and>
        e = Error (''No success message: '' @ trim data))"
  unfolding WriteTask_parse_def successRE_exec_iff [symmetric]
  by (auto simp: Let_def split: option.splits)

text \<open>The theorem at two replies: one update reported after blanks, and none reported.\<close>

theorem WriteTask_parse_outcome_witness:
  "WriteTask_parse None [] (''    1 image files updated'' @ [CHR 0x0A]) = Inr () \<and>
   WriteTask_parse None [] ''0 image files updated''
     = Inl (Error ''No success message: 0 image files updated'')"
proof -
  have t: "trim (''    1 image files updated'' @ [CHR 0x0A]) = ''1 image files updated''"
    by (simp add: trim_def isWhiteSpace_def)
  have "trim (''    1 image files updated'' @ [CHR 0x0A]) = [] @ ''1 image files updated'' @ []"
    using t by simp
  then have a: "WriteTask_parse None [] (''    1 image files updated'' @ [CHR 0x0A]) = Inr ()"
    using WriteTask_parse_outcome [of None "[]" "''    1 image files updated'' @ [CHR 0x0A]"]
    by blast
  have "\<not> successRE_exec (trim ''0 image files updated'')"
    by (simp add: trim_def isWhiteSpace_def successRE_at_def startsWith_def)
  moreover have "trim ''0 image files updated'' = ''0 image files updated''"
    by (simp add: trim_def isWhiteSpace_def)
  ultimately have b: "WriteTask_parse None [] ''0 image files updated''
     = Inl (Error ''No success message: 0 image files updated'')"
    using WriteTask_parse_outcome [of None "[]" "''0 image files updated''"]
    by simp
  from a b show ?thesis ..
qed

text \<open>
  Claim C5 as stated fails: the reply \<^verbatim>\<open>2 image files updated\<close> is of the form
  "N image files updated" with N at least 1 and is rejected, and a task with a recorded
  error fails with that error's text, not with the reply's.
\<close>

theorem WriteTask_parse_counterexample:
  "WriteTask_parse None [] ''2 image files updated''
     = Inl (Error ''No success message: 2 image files updated'') \<and>
   WriteTask_parse None [''boom''] ''1 image files updated'' = Inl (Error ''boom'')"
  by (simp add: WriteTask_parse_def trim_def isWhiteSpace_def successRE_at_def startsWith_def)

section \<open>Properties of the supervisor\<close>

subsection \<open>Promises and single operations\<close>

lemma settle_fields [simp]:
  "readers (settle p x s) = readers s" "buff (settle p x s) = buff s"
  "ended (settle p x s) = ended s" "stdin (settle p x s) = stdin s"
  "console (settle p x s) = console s" "uncaught (settle p x s) = uncaught s"
  "length (promises (settle p x s)) = length (promises s)"
  by (simp_all add: settle_def)

lemma settle_nth:
  "promises (settle p x s) ! q =
     (if q = p \<and> p < length (promises s) \<and> promises s ! p = Pending then x else promises s ! q)"
  by (simp add: settle_def)

lemma apply_frame [simp]:
  "readers (snd (DeferredReader_apply r i s)) = readers s"
  "buff (snd (DeferredReader_apply r i s)) = buff s"
  "ended (snd (DeferredReader_apply r i s)) = ended s"
  "stdin (snd (DeferredReader_apply r i s)) = stdin s"
  "uncaught (snd (DeferredReader_apply r i s)) = uncaught s"
  "length (promises (snd (DeferredReader_apply r i s))) = length (promises s)"
  by (simp_all add: DeferredReader_apply_def split: sum.splits)

lemma apply_other:
  "q \<noteq> promise r \<Longrightarrow> promises (snd (DeferredReader_apply r i s)) ! q = promises s ! q"
  by (simp add: DeferredReader_apply_def settle_nth split: sum.splits)

text \<open>What \<^verbatim>\<open>apply\<close> does to the reader's own promise.\<close>

lemma apply_returns:
  assumes "fst (DeferredReader_apply r i s) = None"
    and "promise r < length (promises s)" and "promises s ! promise r = Pending"
  shows "\<exists>x v. reader r i = Inr x \<and> promises (snd (DeferredReader_apply r i s)) ! promise r = Resolved v \<and>
           (v = x \<or> setProperty x ''warnings'' (JArr (map JStr (warnings r)) []) = Inr v)"
  using assms
  by (auto simp: DeferredReader_apply_def settle_nth split: sum.splits if_splits)

lemma apply_throws:
  assumes "fst (DeferredReader_apply r i s) = Some e"
  shows "snd (DeferredReader_apply r i s) = s"
  using assms
  by (auto simp: DeferredReader_apply_def split: sum.splits if_splits)

lemma onData_quiet:
  "\<not> endsWith (trim (buff s @ d)) ready \<Longrightarrow> onData d s = (None, s\<lparr>buff := trim (buff s @ d)\<rparr>)"
  by (simp add: onData_def Let_def)

lemma onData_done:
  assumes "endsWith (trim (buff s @ d)) ready"
  shows "onData d s =
     (case readers s of
        r # rs \<Rightarrow> DeferredReader_apply r (slice0neg (trim (buff s @ d)) (length ready))
                    (s\<lparr>buff := [], readers := rs\<rparr>)
      | [] \<Rightarrow> (None, s\<lparr>buff := [],
                    console := console s @
                      [ConsoleError (''No reader for payload '' @
                         slice0neg (trim (buff s @ d)) (length ready))]\<rparr>))"
  using assms by (simp add: onData_def Let_def split: list.splits)

subsection \<open>The queue invariant\<close>

lemma queue_ok_execute:
  assumes "queue_ok s"
  shows "queue_ok (snd (execute rd cmds s))"
proof -
  let ?p = "length (promises s)"
  from assms have d: "distinct (map promise (readers s))"
    and b: "\<forall>r \<in> set (readers s). promise r < ?p"
    and p: "ended s \<or> (\<forall>r \<in> set (readers s). promises s ! promise r = Pending)"
    by (auto simp: queue_ok_def list_all_iff)
  from b have "?p \<notin> promise ` set (readers s)" by auto
  with d have "distinct (map promise (readers s @ [\<lparr>reader = rd, warnings = [], promise = ?p\<rparr>]))"
    by simp
  moreover from b have "\<forall>r \<in> set (readers s @ [\<lparr>reader = rd, warnings = [], promise = ?p\<rparr>]).
      promise r < length (promises s @ [Pending])"
    by auto
  moreover from b p have "ended s \<or> (\<forall>r \<in> set (readers s @ [\<lparr>reader = rd, warnings = [], promise = ?p\<rparr>]).
      (promises s @ [Pending]) ! promise r = Pending)"
    by (auto simp: nth_append)
  ultimately show ?thesis
    by (simp add: queue_ok_def execute_def Let_def list_all_iff)
qed

lemma queue_ok_onError:
  assumes "queue_ok s"
  shows "queue_ok (onError e s)"
  using assms by (cases "readers s") (auto simp: queue_ok_def onError_def)

lemma queue_ok_onData:
  assumes "queue_ok s"
  shows "queue_ok (snd (onData d s))"
proof (cases "endsWith (trim (buff s @ d)) ready")
  case False
  then show ?thesis using assms by (simp add: onData_quiet queue_ok_def)
next
  case True
  show ?thesis
  proof (cases "readers s")
    case Nil
    then show ?thesis using assms True by (simp add: onData_done queue_ok_def)
  next
    case (Cons r rs)
    let ?s0 = "s\<lparr>buff := [], readers := rs\<rparr>"
    let ?s1 = "snd (DeferredReader_apply r (slice0neg (trim (buff s @ d)) (length ready)) ?s0)"
    have eq: "snd (onData d s) = ?s1" using True Cons by (simp add: onData_done)
    from assms Cons have d: "distinct (map promise rs)" and nr: "promise r \<notin> promise ` set rs"
      and b: "\<forall>x \<in> set rs. promise x < length (promises s)"
      and p: "ended s \<or> (\<forall>x \<in> set rs. promises s ! promise x = Pending)"
      by (auto simp: queue_ok_def list_all_iff)
    have "\<forall>x \<in> set rs. promises ?s1 ! promise x = promises s ! promise x"
    proof
      fix x assume "x \<in> set rs"
      with nr have "promise x \<noteq> promise r" by (metis imageI)
      then show "promises ?s1 ! promise x = promises s ! promise x"
        by (simp add: apply_other)
    qed
    with d b p show ?thesis
      unfolding eq by (simp add: queue_ok_def list_all_iff)
  qed
qed

lemma fold_settle_fields [simp]:
  "readers (fold (\<lambda>r. settle (promise r) x) rs s) = readers s"
  "ended (fold (\<lambda>r. settle (promise r) x) rs s) = ended s"
  "buff (fold (\<lambda>r. settle (promise r) x) rs s) = buff s"
  "stdin (fold (\<lambda>r. settle (promise r) x) rs s) = stdin s"
  "length (promises (fold (\<lambda>r. settle (promise r) x) rs s)) = length (promises s)"
  by (induction rs arbitrary: s; simp)+

lemma fold_settle_nth:
  "q < length (promises s) \<Longrightarrow>
   promises (fold (\<lambda>r. settle (promise r) x) rs s) ! q =
     (if q \<in> promise ` set rs \<and> promises s ! q = Pending then x else promises s ! q)"
proof (induction rs arbitrary: s)
  case Nil
  show ?case by simp
next
  case (Cons r rs)
  have "q < length (promises (settle (promise r) x s))" using Cons.prems by simp
  from Cons.IH [OF this] show ?case
    using Cons.prems by (auto simp: settle_nth)
qed

lemma fold_settle_nth_out:
  "q \<notin> promise ` set rs \<Longrightarrow>
   promises (fold (\<lambda>r. settle (promise r) x) rs s) ! q = promises s ! q"
  by (induction rs arbitrary: s) (auto simp: settle_nth)

lemma onClose_fields [simp]:
  "readers (onClose c s) = readers s" "ended (onClose c s)"
  "buff (onClose c s) = buff s" "stdin (onClose c s) = stdin s"
  "length (promises (onClose c s)) = length (promises s)"
  by (simp_all add: onClose_def)

lemma onClose_nth:
  "q < length (promises s) \<Longrightarrow>
   promises (onClose c s) ! q =
     (if q \<in> promise ` set (readers s) \<and> promises s ! q = Pending
      then Rejected (JStr ''ExifTool closed'') else promises s ! q)"
  by (simp add: onClose_def fold_settle_nth)

lemma onClose_nth_out:
  "q \<notin> promise ` set (readers s) \<Longrightarrow> promises (onClose c s) ! q = promises s ! q"
  by (simp add: onClose_def fold_settle_nth_out)

lemma queue_ok_onClose:
  assumes "queue_ok s"
  shows "queue_ok (onClose c s)"
  using assms by (simp add: queue_ok_def)

lemma queue_ok_step:
  assumes "queue_ok s"
  shows "queue_ok (step s ev)"
proof (cases ev)
  case (Execute rd cmds)
  then show ?thesis using queue_ok_execute [OF assms] by simp
next
  case (Data d)
  have "queue_ok (snd (onData d s))" by (rule queue_ok_onData [OF assms])
  then show ?thesis using Data
    by (cases "onData d s") (auto simp: queue_ok_def split: option.splits)
next
  case (Err e)
  then show ?thesis using queue_ok_onError [OF assms] by simp
next
  case (Close c)
  then show ?thesis using queue_ok_onClose [OF assms] by simp
qed

lemma queue_ok_run:
  "queue_ok s \<Longrightarrow> queue_ok (run s evs)"
  unfolding run_def by (induction evs arbitrary: s) (simp_all add: queue_ok_step)

lemma queue_ok_constructor: "queue_ok constructor"
  by (simp add: queue_ok_def constructor_def execute_def fresh_def)

subsection \<open>Framing of the output stream\<close>

lemma run_Data_quiet:
  "(\<forall>n < length ds. \<not> endsWith (foldl (\<lambda>b c. trim (b @ c)) (buff s) (take (Suc n) ds)) ready) \<Longrightarrow>
   run s (map Data ds) = s\<lparr>buff := foldl (\<lambda>b c. trim (b @ c)) (buff s) ds\<rparr>"
proof (induction ds arbitrary: s)
  case Nil
  show ?case by (simp add: run_def)
next
  case (Cons d ds)
  have first: "\<not> endsWith (trim (buff s @ d)) ready"
    using Cons.prems [rule_format, of 0] by simp
  let ?s = "s\<lparr>buff := trim (buff s @ d)\<rparr>"
  have st: "step s (Data d) = ?s" using first by (simp add: onData_quiet)
  have "\<forall>n < length ds. \<not> endsWith (foldl (\<lambda>b c. trim (b @ c)) (buff ?s) (take (Suc n) ds)) ready"
  proof (intro allI impI)
    fix n assume "n < length ds"
    then have "Suc n < length (d # ds)" by simp
    from Cons.prems [rule_format, OF this]
    show "\<not> endsWith (foldl (\<lambda>b c. trim (b @ c)) (buff ?s) (take (Suc n) ds)) ready"
      by simp
  qed
  from Cons.IH [OF this] have "run ?s (map Data ds) = ?s\<lparr>buff := foldl (\<lambda>b c. trim (b @ c)) (buff ?s) ds\<rparr>" .
  then show ?case using st by (simp add: run_def)
qed

text \<open>
  What holds of the framing, on the buffer as \<^verbatim>\<open>onData\<close> stores it: after each chunk, the
  trimmed concatenation of the buffer before it and the chunk. A sequence of chunks after
  none of which the buffer ends with the sentinel changes nothing but the buffer: no call
  is completed. A chunk after which the buffer ends with the sentinel empties the buffer and
  takes exactly the oldest reader off the queue; no promise but that reader's changes; and
  when the handler returns without an exception, that reader's promise is resolved with
  what its decode function made of exactly the buffer's text before the sentinel (with
  the warnings attached, if there are any and the value takes them).
\<close>

theorem onData_framing:
  assumes "queue_ok s" and "\<not> ended s"
  shows
    "(\<forall>ds. (\<forall>n < length ds.
             \<not> endsWith (foldl (\<lambda>b c. trim (b @ c)) (buff s) (take (Suc n) ds)) ready) \<longrightarrow>
          run s (map Data ds) = s\<lparr>buff := foldl (\<lambda>b c. trim (b @ c)) (buff s) ds\<rparr>) \<and>
     (endsWith (trim (buff s @ d)) ready \<longrightarrow>
        (\<exists>payload. trim (buff s @ d) = payload @ ready \<and>
           buff (snd (onData d s)) = [] \<and>
           readers (snd (onData d s)) = tl (readers s) \<and>
           length (promises (snd (onData d s))) = length (promises s) \<and>
           (\<forall>q. readers s = [] \<or> q \<noteq> promise (hd (readers s)) \<longrightarrow>
                promises (snd (onData d s)) ! q = promises s ! q) \<and>
           (\<forall>r rs. readers s = r # rs \<and> fst (onData d s) = None \<longrightarrow>
              (\<exists>x v. reader r payload = Inr x \<and>
                     promises (snd (onData d s)) ! promise r = Resolved v \<and>
                     (v = x \<or>
                      setProperty x ''warnings'' (JArr (map JStr (warnings r)) []) = Inr v)))))"
proof (intro conjI allI impI)
  fix ds
  assume "\<forall>n < length ds. \<not> endsWith (foldl (\<lambda>b c. trim (b @ c)) (buff s) (take (Suc n) ds)) ready"
  then show "run s (map Data ds) = s\<lparr>buff := foldl (\<lambda>b c. trim (b @ c)) (buff s) ds\<rparr>"
    by (rule run_Data_quiet)
next
  assume fin: "endsWith (trim (buff s @ d)) ready"
  let ?payload = "slice0neg (trim (buff s @ d)) (length ready)"
  have split: "trim (buff s @ d) = ?payload @ ready"
    by (rule endsWith_slice [OF fin])
  have a: "buff (snd (onData d s)) = []"
    by (cases "readers s") (simp_all add: onData_done [OF fin])
  have b: "readers (snd (onData d s)) = tl (readers s)"
    by (cases "readers s") (simp_all add: onData_done [OF fin])
  have c: "length (promises (snd (onData d s))) = length (promises s)"
    by (cases "readers s") (simp_all add: onData_done [OF fin])
  have e: "\<forall>q. readers s = [] \<or> q \<noteq> promise (hd (readers s)) \<longrightarrow>
                promises (snd (onData d s)) ! q = promises s ! q"
    by (cases "readers s") (simp_all add: onData_done [OF fin] apply_other)
  have f: "\<forall>r rs. readers s = r # rs \<and> fst (onData d s) = None \<longrightarrow>
              (\<exists>x v. reader r ?payload = Inr x \<and>
                     promises (snd (onData d s)) ! promise r = Resolved v \<and>
                     (v = x \<or>
                      setProperty x ''warnings'' (JArr (map JStr (warnings r)) []) = Inr v))"
  proof (intro allI impI)
    fix r rs
    assume h: "readers s = r # rs \<and> fst (onData d s) = None"
    let ?s0 = "s\<lparr>buff := [], readers := rs\<rparr>"
    from h have od: "onData d s = DeferredReader_apply r ?payload ?s0"
      by (simp add: onData_done [OF fin])
    from assms h have "promise r < length (promises ?s0)" "promises ?s0 ! promise r = Pending"
      by (auto simp: queue_ok_def)
    moreover from h od have "fst (DeferredReader_apply r ?payload ?s0) = None" by simp
    ultimately show "\<exists>x v. reader r ?payload = Inr x \<and>
                     promises (snd (onData d s)) ! promise r = Resolved v \<and>
                     (v = x \<or>
                      setProperty x ''warnings'' (JArr (map JStr (warnings r)) []) = Inr v)"
      unfolding od by (rule apply_returns [rotated])
  qed
  from split a b c e f
  show "\<exists>payload. trim (buff s @ d) = payload @ ready \<and>
           buff (snd (onData d s)) = [] \<and>
           readers (snd (onData d s)) = tl (readers s) \<and>
           length (promises (snd (onData d s))) = length (promises s) \<and>
           (\<forall>q. readers s = [] \<or> q \<noteq> promise (hd (readers s)) \<longrightarrow>
                promises (snd (onData d s)) ! q = promises s ! q) \<and>
           (\<forall>r rs. readers s = r # rs \<and> fst (onData d s) = None \<longrightarrow>
              (\<exists>x v. reader r payload = Inr x \<and>
                     promises (snd (onData d s)) ! promise r = Resolved v \<and>
                     (v = x \<or>
                      setProperty x ''warnings'' (JArr (map JStr (warnings r)) []) = Inr v)))"
    by blast
qed

text \<open>
  At the supervisor as constructed, waiting for the version: two chunks without the
  sentinel only fill the buffer, and the reply followed by the sentinel resolves the
  version promise and empties the queue.
\<close>

theorem onData_framing_witness:
  "queue_ok constructor \<and> \<not> ended constructor \<and>
   run constructor (map Data [''12.'', ''30 '']) = constructor\<lparr>buff := ''12.30''\<rparr> \<and>
   readers (snd (onData (''12.30'' @ [CHR 0x0A] @ ''{ready}'' @ [CHR 0x0A]) constructor)) = [] \<and>
   (\<exists>v. promises (snd (onData (''12.30'' @ [CHR 0x0A] @ ''{ready}'' @ [CHR 0x0A]) constructor)) ! 0
          = Resolved v)"
proof -
  let ?d = "''12.30'' @ [CHR 0x0A] @ ''{ready}'' @ [CHR 0x0A]"
  have ok: "queue_ok constructor" by (rule queue_ok_constructor)
  have alive: "\<not> ended constructor" by (simp add: constructor_def execute_def fresh_def)
  have b0: "buff constructor = []" by (simp add: constructor_def execute_def fresh_def)
  have rs: "readers constructor = [\<lparr>reader = StringReader, warnings = [], promise = 0\<rparr>]"
    by (simp add: constructor_def execute_def fresh_def)
  note inst = onData_framing [OF ok alive, of ?d]
  have quiet: "\<forall>n < length [''12.'', ''30 ''].
      \<not> endsWith (foldl (\<lambda>b c. trim (b @ c)) (buff constructor) (take (Suc n) [''12.'', ''30 ''])) ready"
    by (simp add: b0 less_Suc_eq trim_def isWhiteSpace_def endsWith_def ready_def)
  from inst quiet have "run constructor (map Data [''12.'', ''30 ''])
      = constructor\<lparr>buff := foldl (\<lambda>b c. trim (b @ c)) (buff constructor) [''12.'', ''30 '']\<rparr>"
    by blast
  then have one: "run constructor (map Data [''12.'', ''30 '']) = constructor\<lparr>buff := ''12.30''\<rparr>"
    by (simp add: b0 trim_def isWhiteSpace_def)
  have fin: "endsWith (trim (buff constructor @ ?d)) ready"
    by (simp add: b0 trim_def isWhiteSpace_def endsWith_def ready_def)
  have nothrow: "fst (onData ?d constructor) = None"
    by (simp add: onData_def Let_def b0 rs trim_def isWhiteSpace_def endsWith_def ready_def
        slice0neg_def DeferredReader_apply_def StringReader_def)
  from inst fin obtain payload where
    t: "readers (snd (onData ?d constructor)) = tl (readers constructor)" and
    r: "\<forall>r rs. readers constructor = r # rs \<and> fst (onData ?d constructor) = None \<longrightarrow>
          (\<exists>x v. reader r payload = Inr x \<and>
                 promises (snd (onData ?d constructor)) ! promise r = Resolved v \<and>
                 (v = x \<or> setProperty x ''warnings'' (JArr (map JStr (warnings r)) []) = Inr v))"
    by blast
  from t have two: "readers (snd (onData ?d constructor)) = []" by (simp add: rs)
  from r rs nothrow
  have "\<exists>x v. reader \<lparr>reader = StringReader, warnings = [], promise = 0\<rparr> payload = Inr x \<and>
          promises (snd (onData ?d constructor)) ! promise \<lparr>reader = StringReader, warnings = [], promise = 0\<rparr>
            = Resolved v \<and>
          (v = x \<or> setProperty x ''warnings''
                     (JArr (map JStr (warnings \<lparr>reader = StringReader, warnings = [], promise = 0\<rparr>)) []) = Inr v)"
    by blast
  then have three: "\<exists>v. promises (snd (onData ?d constructor)) ! 0 = Resolved v"
    by auto
  from ok alive one two three show ?thesis by blast
qed

text \<open>
  Claim C1 fails on the code. \<^verbatim>\<open>onData\<close> stores the trimmed buffer, so whitespace at the
  end of a chunk is lost before the next chunk is appended. The reply \<^verbatim>\<open>a b\<close> followed by
  the sentinel, arriving in two chunks cut after the blank, completes the call with \<^verbatim>\<open>ab\<close>.
  The reply to a read, cut after the blank of \<^verbatim>\<open>Canon EOS\<close>, completes the read with the
  model \<^verbatim>\<open>CanonEOS\<close>, while the text the worker sent before the sentinel has the blank. And
  the chunks \<^verbatim>\<open>{rea \<close> and \<^verbatim>\<open>dy}\<close>, whose text does not end with the sentinel, complete the
  call.
\<close>

theorem onData_loses_whitespace:
  "promises (run constructor [Data ''a '', Data ''b{ready}'']) = [Resolved (JStr ''ab'')] \<and>
   slice0neg (trim (''a '' @ ''b{ready}'')) (length ready) = ''a b'' \<and>
   promises (run constructor
      [Data (''12.30'' @ [CHR 0x0A] @ ''{ready}'' @ [CHR 0x0A]),
       Execute (MetadataReader JSON_parse_sample) [''-json'', ''-fast'', ''/a.jpg''],
       Data sample_chunk1, Data sample_chunk2])
     = [Resolved (JStr ''12.30''),
        Resolved (JArr [JObj [(''SourceFile'', JStr ''/a.jpg''), (''Model'', JStr ''CanonEOS'')]] [])] \<and>
   slice0neg (trim (sample_chunk1 @ sample_chunk2)) (length ready) = sample_sent_text \<and>
   promises (run constructor [Data ''{rea '', Data ''dy}'']) = [Resolved (JStr [])] \<and>
   \<not> endsWith (trim (''{rea '' @ ''dy}'')) ready"
  by (simp add: run_def onData_def Let_def constructor_def execute_def fresh_def trim_def
      isWhiteSpace_def endsWith_def ready_def slice0neg_def DeferredReader_apply_def
      StringReader_def MetadataReader_def JSON_parse_sample_def sample_chunk1_def
      sample_chunk2_def sample_sent_text_def sample_joined_text_def sample_reply_text_def
      settle_def)

subsection \<open>The worker's exit\<close>

lemma ended_step: "ended s \<Longrightarrow> ended (step s ev)"
proof (cases ev)
  case (Data d)
  assume "ended s"
  then have "ended (snd (onData d s))"
    by (cases "endsWith (trim (buff s @ d)) ready"; cases "readers s")
       (simp_all add: onData_quiet onData_done)
  then show ?thesis using Data
    by (cases "onData d s") (auto split: option.splits)
qed (simp_all add: execute_def Let_def onError_def split: list.splits)

lemma ended_run: "ended s \<Longrightarrow> ended (run s evs)"
  unfolding run_def by (induction evs arbitrary: s) (simp_all add: ended_step)

lemma length_promises_step: "length (promises s) \<le> length (promises (step s ev))"
proof (cases ev)
  case (Data d)
  have "length (promises (snd (onData d s))) = length (promises s)"
    by (cases "endsWith (trim (buff s @ d)) ready"; cases "readers s")
       (simp_all add: onData_quiet onData_done)
  then show ?thesis using Data
    by (cases "onData d s") (auto split: option.splits)
qed (simp_all add: execute_def Let_def onError_def split: list.splits)

text \<open>Without a chunk of output, no step resolves a promise.\<close>

lemma step_no_resolve:
  assumes "\<not> isData ev" and "q < length (promises (step s ev))"
    and "promises (step s ev) ! q = Resolved v"
  shows "q < length (promises s) \<and> promises s ! q = Resolved v"
proof (cases ev)
  case (Execute rd cmds)
  with assms show ?thesis
    by (auto simp: execute_def Let_def nth_append split: if_splits)
next
  case (Data d)
  with assms show ?thesis by simp
next
  case (Err e)
  with assms show ?thesis
    by (auto simp: onError_def split: list.splits)
next
  case (Close c)
  with assms have q: "q < length (promises s)" by simp
  from assms Close have "promises (onClose c s) ! q = Resolved v" by simp
  with q show ?thesis
    by (auto simp: onClose_nth split: if_splits)
qed

lemma run_no_resolve:
  assumes "\<not> list_ex isData evs" and "q < length (promises (run s evs))"
    and "promises (run s evs) ! q = Resolved v"
  shows "q < length (promises s) \<and> promises s ! q = Resolved v"
  using assms
proof (induction evs arbitrary: s)
  case Nil
  then show ?case by (simp add: run_def)
next
  case (Cons ev evs)
  from Cons.prems have nd: "\<not> isData ev" and nds: "\<not> list_ex isData evs" by simp_all
  from Cons.prems have "q < length (promises (run (step s ev) evs))"
    and "promises (run (step s ev) evs) ! q = Resolved v"
    by (simp_all add: run_def)
  from Cons.IH [OF nds this]
  have "q < length (promises (step s ev))" and "promises (step s ev) ! q = Resolved v"
    by simp_all
  from step_no_resolve [OF nd this] show ?case .
qed

text \<open>
  Claim C3, as the code has it. When the worker exits, every call of the queue fails with
  the reason \<^verbatim>\<open>ExifTool closed\<close>, no other promise changes, and the supervisor is ended.
  \<^verbatim>\<open>execute\<close> does not look at that flag: a call submitted after the exit is accepted like
  any other (a new unsettled promise, the reader appended to the queue, the command written
  to the worker). The supervisor stays ended, and, as the closed output stream delivers
  no further chunk, no call submitted after the exit is ever resolved.
\<close>

theorem onClose_then_execute:
  assumes "queue_ok s" and "\<not> ended s"
  shows
    "ended (onClose code s) \<and>
     (\<forall>r \<in> set (readers s). promises (onClose code s) ! promise r = Rejected (JStr ''ExifTool closed'')) \<and>
     (\<forall>q. q \<notin> promise ` set (readers s) \<longrightarrow> promises (onClose code s) ! q = promises s ! q) \<and>
     execute rd cmds (onClose code s) =
       (length (promises s),
        (onClose code s)\<lparr>readers := readers s @ [\<lparr>reader = rd, warnings = [], promise = length (promises s)\<rparr>],
                         promises := promises (onClose code s) @ [Pending],
                         stdin := stdin s @ [join [CHR 0x0A] (cmds @ [''-execute'', []])]\<rparr>) \<and>
     (\<forall>evs. \<not> list_ex isData evs \<longrightarrow>
        ended (run (onClose code s) evs) \<and>
        (\<forall>q v. length (promises s) \<le> q \<and> q < length (promises (run (onClose code s) evs)) \<longrightarrow>
               promises (run (onClose code s) evs) ! q \<noteq> Resolved v))"
proof (intro conjI ballI allI impI)
  show "ended (onClose code s)" by simp
next
  fix r assume r: "r \<in> set (readers s)"
  with assms have "promise r < length (promises s)" "promises s ! promise r = Pending"
    by (auto simp: queue_ok_def list_all_iff)
  with r show "promises (onClose code s) ! promise r = Rejected (JStr ''ExifTool closed'')"
    by (simp add: onClose_nth)
next
  fix q assume "q \<notin> promise ` set (readers s)"
  then show "promises (onClose code s) ! q = promises s ! q" by (rule onClose_nth_out)
next
  show "execute rd cmds (onClose code s) =
       (length (promises s),
        (onClose code s)\<lparr>readers := readers s @ [\<lparr>reader = rd, warnings = [], promise = length (promises s)\<rparr>],
                         promises := promises (onClose code s) @ [Pending],
                         stdin := stdin s @ [join [CHR 0x0A] (cmds @ [''-execute'', []])]\<rparr>)"
    by (simp add: execute_def Let_def)
next
  fix evs assume "\<not> list_ex isData evs"
  show "ended (run (onClose code s) evs)" by (simp add: ended_run)
next
  fix evs q v
  assume nd: "\<not> list_ex isData evs"
    and q: "length (promises s) \<le> q \<and> q < length (promises (run (onClose code s) evs))"
  show "promises (run (onClose code s) evs) ! q \<noteq> Resolved v"
  proof
    assume "promises (run (onClose code s) evs) ! q = Resolved v"
    with run_no_resolve [OF nd, of q "onClose code s" v] q
    have "q < length (promises (onClose code s))" by blast
    with q show False by simp
  qed
qed

text \<open>The theorem at the supervisor as constructed, with the version call in the queue.\<close>

theorem onClose_then_execute_witness:
  "queue_ok constructor \<and> \<not> ended constructor \<and>
   promises (onClose ''0'' constructor) ! 0 = Rejected (JStr ''ExifTool closed'') \<and>
   fst (execute StringReader [''-ver''] (onClose ''0'' constructor)) = 1 \<and>
   ended (run (onClose ''0'' constructor) [Execute StringReader [''-ver''], Err ''x'']) \<and>
   promises (run (onClose ''0'' constructor) [Execute StringReader [''-ver''], Err ''x'']) ! 1
     \<noteq> Resolved (JStr ''12.30'')"
proof -
  let ?evs = "[Execute StringReader [''-ver''], Err ''x'']"
  have ok: "queue_ok constructor" by (rule queue_ok_constructor)
  have alive: "\<not> ended constructor" by (simp add: constructor_def execute_def fresh_def)
  have rs: "readers constructor = [\<lparr>reader = StringReader, warnings = [], promise = 0\<rparr>]"
    by (simp add: constructor_def execute_def fresh_def)
  have len: "length (promises constructor) = 1"
    by (simp add: constructor_def execute_def fresh_def)
  note inst = onClose_then_execute [OF ok alive, of "''0''" StringReader "[''-ver'']"]
  from inst have "\<forall>r \<in> set (readers constructor).
      promises (onClose ''0'' constructor) ! promise r = Rejected (JStr ''ExifTool closed'')"
    by blast
  then have one: "promises (onClose ''0'' constructor) ! 0 = Rejected (JStr ''ExifTool closed'')"
    by (simp add: rs)
  from inst have "fst (execute StringReader [''-ver''] (onClose ''0'' constructor))
      = length (promises constructor)"
    by simp
  then have two: "fst (execute StringReader [''-ver''] (onClose ''0'' constructor)) = 1"
    by (simp add: len)
  have nd: "\<not> list_ex isData ?evs" by simp
  have "length (promises (run (onClose ''0'' constructor) ?evs)) = 2"
    by (simp add: run_def execute_def Let_def onError_def len rs)
  then have q: "length (promises constructor) \<le> 1 \<and>
      1 < length (promises (run (onClose ''0'' constructor) ?evs))"
    by (simp add: len)
  from inst nd have three: "ended (run (onClose ''0'' constructor) ?evs)" by blast
  from inst nd q have four:
    "promises (run (onClose ''0'' constructor) ?evs) ! 1 \<noteq> Resolved (JStr ''12.30'')"
    by blast
  from ok alive one two three four show ?thesis by blast
qed

text \<open>
  Claim C3 as stated fails: the ended supervisor accepts a call. After the worker's exit,
  \<^verbatim>\<open>execute\<close> appends the reader to the queue, writes the command to the worker and returns
  a promise that nothing settles.
\<close>

theorem onClose_counterexample:
  "ended (run constructor [Close ''0'', Execute StringReader [''-ver'']]) \<and>
   map promise (readers (run constructor [Close ''0'', Execute StringReader [''-ver'']])) = [0, 1] \<and>
   promises (run constructor [Close ''0'', Execute StringReader [''-ver'']])
     = [Rejected (JStr ''ExifTool closed''), Pending] \<and>
   length (stdin (run constructor [Close ''0'', Execute StringReader [''-ver'']])) = 2"
  by (simp add: run_def onClose_def constructor_def execute_def fresh_def settle_def)

subsection \<open>A decode function that throws\<close>

lemma orphan_step:
  assumes "p < length (promises s)" and "p \<notin> promise ` set (readers s)"
  shows "promises (step s ev) ! p = promises s ! p \<and> p < length (promises (step s ev)) \<and>
         p \<notin> promise ` set (readers (step s ev))"
proof (cases ev)
  case (Execute rd cmds)
  with assms show ?thesis by (auto simp: execute_def Let_def nth_append)
next
  case (Data d)
  have "promises (snd (onData d s)) ! p = promises s ! p \<and>
        p < length (promises (snd (onData d s))) \<and>
        p \<notin> promise ` set (readers (snd (onData d s)))"
  proof (cases "endsWith (trim (buff s @ d)) ready")
    case False
    with assms show ?thesis by (simp add: onData_quiet)
  next
    case True
    show ?thesis
    proof (cases "readers s")
      case Nil
      with assms True show ?thesis by (simp add: onData_done)
    next
      case (Cons r rs)
      with assms have "p \<noteq> promise r" "p \<notin> promise ` set rs" by auto
      with assms Cons True show ?thesis by (simp add: onData_done apply_other)
    qed
  qed
  then show ?thesis using Data
    by (cases "onData d s") (auto split: option.splits)
next
  case (Err e)
  with assms show ?thesis by (auto simp: onError_def split: list.splits)
next
  case (Close c)
  with assms show ?thesis by (simp add: onClose_nth_out)
qed

lemma orphan_run:
  assumes "p < length (promises s)" and "p \<notin> promise ` set (readers s)"
  shows "promises (run s evs) ! p = promises s ! p"
  using assms
proof (induction evs arbitrary: s)
  case Nil
  show ?case by (simp add: run_def)
next
  case (Cons ev evs)
  from orphan_step [OF Cons.prems, of ev]
  have a: "promises (step s ev) ! p = promises s ! p"
    and b: "p < length (promises (step s ev))"
    and c: "p \<notin> promise ` set (readers (step s ev))" by simp_all
  from Cons.IH [OF b c] a show ?case by (simp add: run_def)
qed

text \<open>A promise that is settled stays as it is: no call is resumed twice.\<close>

lemma settle_keeps:
  "promises s ! p \<noteq> Pending \<Longrightarrow> promises (settle q x s) ! p = promises s ! p"
  by (cases "p = q") (simp_all add: settle_def)

lemma apply_keeps:
  "promises s ! p \<noteq> Pending \<Longrightarrow>
   promises (snd (DeferredReader_apply r i s)) ! p = promises s ! p"
  by (simp add: DeferredReader_apply_def settle_keeps split: sum.splits)

lemma settled_stays:
  assumes "p < length (promises s)" and "promises s ! p \<noteq> Pending"
  shows "promises (step s ev) ! p = promises s ! p"
proof (cases ev)
  case (Execute rd cmds)
  with assms show ?thesis by (simp add: execute_def Let_def nth_append)
next
  case (Data d)
  have "promises (snd (onData d s)) ! p = promises s ! p"
  proof (cases "endsWith (trim (buff s @ d)) ready")
    case False
    then show ?thesis by (simp add: onData_quiet)
  next
    case True
    show ?thesis
    proof (cases "readers s")
      case Nil
      with True show ?thesis by (simp add: onData_done)
    next
      case (Cons r rs)
      with True assms show ?thesis
        by (simp add: onData_done apply_keeps)
    qed
  qed
  then show ?thesis using Data
    by (cases "onData d s") (auto split: option.splits)
next
  case (Err e)
  then show ?thesis by (simp add: onError_def split: list.splits)
next
  case (Close c)
  with assms show ?thesis by (simp add: onClose_nth)
qed

text \<open>
  When the decode function of the oldest call throws on a complete reply, the reader has
  left the queue, the exception leaves the handler, and whatever happens afterwards
  (further calls, output, the worker's exit), the call's promise is never settled.
\<close>

lemma decode_error_never_settles:
  assumes "queue_ok s" and "\<not> ended s" and "readers s = r # rs"
    and "endsWith (trim (buff s @ d)) ready"
    and "reader r (slice0neg (trim (buff s @ d)) (length ready)) = Inl e"
  shows "readers (step s (Data d)) = rs \<and> uncaught (step s (Data d)) = uncaught s @ [e] \<and>
         (\<forall>evs. promises (run (step s (Data d)) evs) ! promise r = Pending)"
proof -
  let ?s0 = "s\<lparr>buff := [], readers := rs\<rparr>"
  have od: "onData d s = (Some e, ?s0)"
    using assms(3,4,5) by (simp add: onData_done DeferredReader_apply_def)
  then have st: "step s (Data d) = ?s0\<lparr>uncaught := uncaught s @ [e]\<rparr>" by simp
  from assms(1,2,3) have p: "promise r < length (promises s)" "promises s ! promise r = Pending"
    and out: "promise r \<notin> promise ` set rs"
    by (auto simp: queue_ok_def)
  have "\<forall>evs. promises (run (step s (Data d)) evs) ! promise r = Pending"
  proof
    fix evs
    have "promises (run (step s (Data d)) evs) ! promise r = promises (step s (Data d)) ! promise r"
      unfolding st by (rule orphan_run) (use p out in simp_all)
    then show "promises (run (step s (Data d)) evs) ! promise r = Pending"
      unfolding st using p by simp
  qed
  then show ?thesis unfolding st by simp
qed

text \<open>
  Claim C4 fails on the code. A read is pending and the worker replies with the sentinel
  alone, as it does for a file it cannot read: \<^verbatim>\<open>JSON.parse\<close> throws on the empty text, the
  exception leaves the handler, the reader is gone from the queue, and the promise of the
  read is still unsettled, also after the worker has exited.
\<close>

theorem decode_error_leaves_call_pending:
  "promises (run constructor
      [Data (''12.30'' @ [CHR 0x0A] @ ''{ready}'' @ [CHR 0x0A]),
       Execute (MetadataReader JSON_parse_sample) [''-json'', ''-fast'', ''/missing.jpg''],
       Data (''{ready}'' @ [CHR 0x0A])])
     = [Resolved (JStr ''12.30''), Pending] \<and>
   readers (run constructor
      [Data (''12.30'' @ [CHR 0x0A] @ ''{ready}'' @ [CHR 0x0A]),
       Execute (MetadataReader JSON_parse_sample) [''-json'', ''-fast'', ''/missing.jpg''],
       Data (''{ready}'' @ [CHR 0x0A])]) = [] \<and>
   uncaught (run constructor
      [Data (''12.30'' @ [CHR 0x0A] @ ''{ready}'' @ [CHR 0x0A]),
       Execute (MetadataReader JSON_parse_sample) [''-json'', ''-fast'', ''/missing.jpg''],
       Data (''{ready}'' @ [CHR 0x0A])])
     = [SyntaxError ''Unexpected end of JSON input''] \<and>
   promises (run constructor
      [Data (''12.30'' @ [CHR 0x0A] @ ''{ready}'' @ [CHR 0x0A]),
       Execute (MetadataReader JSON_parse_sample) [''-json'', ''-fast'', ''/missing.jpg''],
       Data (''{ready}'' @ [CHR 0x0A]),
       Close ''0''])
     = [Resolved (JStr ''12.30''), Pending]"
  by (simp add: run_def onData_def onClose_def Let_def constructor_def execute_def fresh_def
      trim_def isWhiteSpace_def endsWith_def ready_def slice0neg_def DeferredReader_apply_def
      StringReader_def MetadataReader_def JSON_parse_sample_def sample_reply_text_def sample_joined_text_def settle_def)

subsection \<open>Warnings from the error stream\<close>

text \<open>
  What \<^verbatim>\<open>apply\<close> does with the warnings of a call whose decode function returned \<open>x\<close>: an
  object or an array is resolved with the warnings under its \<^verbatim>\<open>warnings\<close> key and nothing
  is printed; a string, a number, a boolean or \<^verbatim>\<open>undefined\<close> is resolved as it is and the
  warnings are printed; on \<^verbatim>\<open>null\<close>, whose \<^verbatim>\<open>typeof\<close> is \<^verbatim>\<open>'object'\<close>, the assignment throws
  and the promise is not settled. Neither reader of the supervisor gets \<^verbatim>\<open>null\<close> out of what
  the worker prints: the version is a string, and the reply to a read is a JSON array or
  empty.
\<close>

lemma apply_warnings:
  assumes "reader r i = Inr x" and "warnings r \<noteq> []"
    and "promise r < length (promises s)" and "promises s ! promise r = Pending"
  shows "DeferredReader_apply r i s =
     (case x of
        JObj ps \<Rightarrow>
          (None, s\<lparr>promises := (promises s)[promise r :=
             Resolved (JObj (assign ''warnings'' (JArr (map JStr (warnings r)) []) ps))]\<rparr>)
      | JArr xs ps \<Rightarrow>
          (None, s\<lparr>promises := (promises s)[promise r :=
             Resolved (JArr xs (assign ''warnings'' (JArr (map JStr (warnings r)) []) ps))]\<rparr>)
      | JNull \<Rightarrow>
          (Some (TypeError (''Cannot set properties of null (setting '' @
                            [CHR 0x27] @ ''warnings'' @ [CHR 0x27] @ '')'')), s)
      | _ \<Rightarrow>
          (None, s\<lparr>console := console s @ [ConsoleDir (warnings r)],
                    promises := (promises s)[promise r := Resolved x]\<rparr>))"
  using assms by (cases x) (simp_all add: DeferredReader_apply_def settle_def)

lemma map_of_assign: "map_of (assign k v ps) k = Some v"
  by (induction ps) auto

text \<open>
  Claim C10. A chunk of the error stream is appended to the warnings of the oldest pending
  call; nothing is printed or settled then. When that call's reply is decoded, its
  warnings reach the caller only with a result that is an object (an array or a plain
  object, that is \<^verbatim>\<open>typeof\<close> \<^verbatim>\<open>'object'\<close> and not \<^verbatim>\<open>null\<close>): the call is resolved with the
  result carrying them under its \<^verbatim>\<open>warnings\<close> key, and nothing is printed. With a result
  that is not an object, such as the version string, the warnings are printed to the
  console and the call is resolved with the result alone.
\<close>

theorem warnings_delivery:
  assumes "reader r i = Inr x" and "warnings r \<noteq> []"
    and "promise r < length (promises s)" and "promises s ! promise r = Pending"
  shows
    "(\<forall>s0 r0 rs e. readers s0 = r0 # rs \<longrightarrow>
        readers (onError e s0) = r0\<lparr>warnings := warnings r0 @ [e]\<rparr> # rs \<and>
        promises (onError e s0) = promises s0 \<and> console (onError e s0) = console s0) \<and>
     (typeof x = ''object'' \<and> x \<noteq> JNull \<longrightarrow>
        (\<exists>x'. setProperty x ''warnings'' (JArr (map JStr (warnings r)) []) = Inr x' \<and>
              getProperty x' ''warnings'' = Inr (JArr (map JStr (warnings r)) []) \<and>
              DeferredReader_apply r i s =
                (None, s\<lparr>promises := (promises s)[promise r := Resolved x']\<rparr>))) \<and>
     (typeof x \<noteq> ''object'' \<longrightarrow>
        DeferredReader_apply r i s =
          (None, s\<lparr>console := console s @ [ConsoleDir (warnings r)],
                    promises := (promises s)[promise r := Resolved x]\<rparr>))"
proof -
  let ?w = "JArr (map JStr (warnings r)) []"
  have a: "\<forall>s0 r0 rs e. readers s0 = r0 # rs \<longrightarrow>
        readers (onError e s0) = r0\<lparr>warnings := warnings r0 @ [e]\<rparr> # rs \<and>
        promises (onError e s0) = promises s0 \<and> console (onError e s0) = console s0"
    by (simp add: onError_def)
  have b: "typeof x = ''object'' \<and> x \<noteq> JNull \<longrightarrow>
        (\<exists>x'. setProperty x ''warnings'' ?w = Inr x' \<and>
              getProperty x' ''warnings'' = Inr ?w \<and>
              DeferredReader_apply r i s =
                (None, s\<lparr>promises := (promises s)[promise r := Resolved x']\<rparr>))"
  proof
    assume obj: "typeof x = ''object'' \<and> x \<noteq> JNull"
    then consider (object) ps where "x = JObj ps" | (array) xs ps where "x = JArr xs ps"
      by (cases x) auto
    then show "\<exists>x'. setProperty x ''warnings'' ?w = Inr x' \<and>
              getProperty x' ''warnings'' = Inr ?w \<and>
              DeferredReader_apply r i s =
                (None, s\<lparr>promises := (promises s)[promise r := Resolved x']\<rparr>)"
    proof cases
      case object
      with apply_warnings [OF assms] show ?thesis by (simp add: map_of_assign)
    next
      case array
      with apply_warnings [OF assms] show ?thesis by (simp add: map_of_assign)
    qed
  qed
  have c: "typeof x \<noteq> ''object'' \<longrightarrow>
        DeferredReader_apply r i s =
          (None, s\<lparr>console := console s @ [ConsoleDir (warnings r)],
                    promises := (promises s)[promise r := Resolved x]\<rparr>)"
    using apply_warnings [OF assms] by (cases x) simp_all
  from a b c show ?thesis by (intro conjI)
qed

text \<open>
  The theorem at a read whose reply is the array for \<^verbatim>\<open>C:\a.jpg\<close>, with one warning: the
  array is delivered with the warning under its \<^verbatim>\<open>warnings\<close> key; and at the version call
  with the same warning: the string is delivered and the warning printed.
\<close>

theorem warnings_delivery_witness:
  "DeferredReader_apply
     \<lparr>reader = MetadataReader JSON_parse_sample, warnings = [''Warning: bad IFD''], promise = 0\<rparr>
     sample_reply_text (fresh\<lparr>promises := [Pending]\<rparr>)
     = (None, fresh\<lparr>promises :=
          [Resolved (JArr [sample_raw] [(''warnings'', JArr [JStr ''Warning: bad IFD''] [])])]\<rparr>) \<and>
   DeferredReader_apply
     \<lparr>reader = StringReader, warnings = [''Warning: bad IFD''], promise = 0\<rparr>
     (''12.30'' @ [CHR 0x0A]) (fresh\<lparr>promises := [Pending]\<rparr>)
     = (None, fresh\<lparr>console := [ConsoleDir [''Warning: bad IFD'']],
                      promises := [Resolved (JStr ''12.30'')]\<rparr>)"
proof -
  let ?s = "fresh\<lparr>promises := [Pending]\<rparr>"
  let ?r = "\<lparr>reader = MetadataReader JSON_parse_sample, warnings = [''Warning: bad IFD''],
            promise = 0\<rparr>"
  let ?v = "\<lparr>reader = StringReader, warnings = [''Warning: bad IFD''], promise = 0\<rparr>"
  have p: "promise ?r < length (promises ?s)" "promises ?s ! promise ?r = Pending"
    "promise ?v < length (promises ?s)" "promises ?s ! promise ?v = Pending"
    by simp_all
  have w: "warnings ?r \<noteq> []" "warnings ?v \<noteq> []" by simp_all
  have dr: "reader ?r sample_reply_text = Inr sample_reply"
    by (simp add: MetadataReader_def JSON_parse_sample_def sample_reply_text_def
        sample_joined_text_def)
  have dv: "reader ?v (''12.30'' @ [CHR 0x0A]) = Inr (JStr ''12.30'')"
    by (simp add: StringReader_def trim_def isWhiteSpace_def)
  have obj: "typeof sample_reply = ''object'' \<and> sample_reply \<noteq> JNull"
    by (simp add: sample_reply_def)
  from warnings_delivery [OF dr w(1) p(1,2)] obj
  obtain x' where "setProperty sample_reply ''warnings'' (JArr (map JStr (warnings ?r)) []) = Inr x'"
    and a: "DeferredReader_apply ?r sample_reply_text ?s
              = (None, ?s\<lparr>promises := (promises ?s)[promise ?r := Resolved x']\<rparr>)"
    by blast
  then have "x' = JArr [sample_raw] [(''warnings'', JArr [JStr ''Warning: bad IFD''] [])]"
    by (simp add: sample_reply_def)
  with a have one: "DeferredReader_apply ?r sample_reply_text ?s
     = (None, fresh\<lparr>promises :=
          [Resolved (JArr [sample_raw] [(''warnings'', JArr [JStr ''Warning: bad IFD''] [])])]\<rparr>)"
    by simp
  have str: "typeof (JStr ''12.30'') \<noteq> ''object''" by simp
  from warnings_delivery [OF dv w(2) p(3,4)] str
  have "DeferredReader_apply ?v (''12.30'' @ [CHR 0x0A]) ?s
     = (None, ?s\<lparr>console := console ?s @ [ConsoleDir (warnings ?v)],
                   promises := (promises ?s)[promise ?v := Resolved (JStr ''12.30'')]\<rparr>)"
    by blast
  then have two: "DeferredReader_apply ?v (''12.30'' @ [CHR 0x0A]) ?s
     = (None, fresh\<lparr>console := [ConsoleDir [''Warning: bad IFD'']],
                      promises := [Resolved (JStr ''12.30'')]\<rparr>)"
    by (simp add: fresh_def)
  from one two show ?thesis by (intro conjI)
qed

section \<open>Properties of the Read Task\<close>

subsection \<open>The loop over the entries\<close>


lemma passthrough_not_gps:
  "name \<in> set PassthroughTags \<Longrightarrow> \<not> startsWith name ''GPS'' \<and> \<not> startsWith name ''Geolocation''"
  by (auto simp: PassthroughTags_def startsWith_def)

lemma parseTag_gps_invalid:
  assumes "gpsIsInvalid (gps st)"
    and "startsWith name ''GPS'' \<or> startsWith name ''Geolocation''"
  shows "parseTag env t st name v = (TRaw JUndefined, [])"
proof -
  from assms(2) have "name \<notin> set PassthroughTags" using passthrough_not_gps by blast
  with assms show ?thesis by (subst parseTag.simps) (simp add: parseTag_gps_def)
qed

lemma parseEntry_skip:
  "isNull (fst (parseTag env t st (tagName t (fst e)) (snd e))) \<Longrightarrow>
   fst (parseEntry env t st e acc) = fst acc"
  by (simp add: parseEntry_def Let_def)

lemma parseEntry_other:
  "fst e \<noteq> key \<Longrightarrow> fst (parseEntry env t st e acc) key = fst acc key"
  by (simp add: parseEntry_def Let_def)

lemma parseEntry_set:
  "\<not> isNull (fst (parseTag env t st (tagName t (fst e)) (snd e))) \<Longrightarrow>
   fst (parseEntry env t st e acc) (fst e) = Some (fst (parseTag env t st (tagName t (fst e)) (snd e)))"
  by (simp add: parseEntry_def Let_def)

text \<open>The keys of the record after the loop: those before it, and keys of entries decoded to a value.\<close>

lemma fold_parseEntry_keys:
  assumes "fst (fold (parseEntry env t st) es acc) key \<noteq> None"
  shows "fst acc key \<noteq> None \<or>
         (\<exists>e \<in> set es. fst e = key \<and> \<not> isNull (fst (parseTag env t st (tagName t (fst e)) (snd e))))"
  using assms
proof (induction es arbitrary: acc)
  case Nil
  then show ?case by simp
next
  case (Cons e es)
  from Cons.prems have "fst (fold (parseEntry env t st) es (parseEntry env t st e acc)) key \<noteq> None"
    by simp
  from Cons.IH [OF this] consider
      (here) "fst (parseEntry env t st e acc) key \<noteq> None"
    | (later) "\<exists>e \<in> set es. fst e = key \<and> \<not> isNull (fst (parseTag env t st (tagName t (fst e)) (snd e)))"
    by blast
  then show ?case
  proof cases
    case here
    show ?thesis
    proof (cases "fst e = key \<and> \<not> isNull (fst (parseTag env t st (tagName t (fst e)) (snd e)))")
      case True
      then show ?thesis by auto
    next
      case False
      then have "fst (parseEntry env t st e acc) key = fst acc key"
        using parseEntry_skip [of env t st e acc] parseEntry_other [of e key env t st acc] by metis
      with here show ?thesis by simp
    qed
  next
    case later
    then show ?thesis by auto
  qed
qed

text \<open>A key whose entries all decode to nothing keeps what the record held for it.\<close>

lemma fold_parseEntry_untouched:
  assumes "\<forall>e \<in> set es. fst e = key \<longrightarrow> isNull (fst (parseTag env t st (tagName t (fst e)) (snd e)))"
  shows "fst (fold (parseEntry env t st) es acc) key = fst acc key"
  using assms
proof (induction es arbitrary: acc)
  case Nil
  show ?case by simp
next
  case (Cons e es)
  have "fst (parseEntry env t st e acc) key = fst acc key"
  proof (cases "fst e = key")
    case True
    with Cons.prems have "isNull (fst (parseTag env t st (tagName t (fst e)) (snd e)))" by simp
    then show ?thesis by (simp add: parseEntry_skip)
  next
    case False
    then show ?thesis by (rule parseEntry_other)
  qed
  moreover have "fst (fold (parseEntry env t st) es (parseEntry env t st e acc)) key
      = fst (parseEntry env t st e acc) key"
    using Cons.prems by (intro Cons.IH) simp
  ultimately show ?case by simp
qed

text \<open>With distinct keys, an entry decoded to a value is what the record holds for its key.\<close>

lemma fold_parseEntry_written:
  assumes "distinct (map fst es)" and "(key, v) \<in> set es"
    and "\<not> isNull (fst (parseTag env t st (tagName t key) v))"
  shows "fst (fold (parseEntry env t st) es acc) key = Some (fst (parseTag env t st (tagName t key) v))"
  using assms
proof (induction es arbitrary: acc)
  case Nil
  then show ?case by simp
next
  case (Cons e es)
  show ?case
  proof (cases "e = (key, v)")
    case True
    with Cons.prems have "\<forall>x \<in> set es. fst x \<noteq> key" by force
    then have "fst (fold (parseEntry env t st) es (parseEntry env t st e acc)) key
        = fst (parseEntry env t st e acc) key"
      by (intro fold_parseEntry_untouched) simp
    also have "\<dots> = Some (fst (parseTag env t st (tagName t key) v))"
      using parseEntry_set [of env t st e acc] True Cons.prems(3) by simp
    finally show ?thesis by simp
  next
    case False
    with Cons.prems have "distinct (map fst es)" "(key, v) \<in> set es" by auto
    from Cons.IH [OF this Cons.prems(3)] show ?thesis by simp
  qed
qed

lemma fold_parseEntry_warnings_prefix:
  "\<exists>ws. snd (fold (parseEntry env t st) es acc) = snd acc @ ws"
proof (induction es arbitrary: acc)
  case Nil
  show ?case by simp
next
  case (Cons e es)
  from Cons.IH [of "parseEntry env t st e acc"] show ?case
    by (auto simp: parseEntry_def Let_def)
qed

subsection \<open>What \<^verbatim>\<open>parse\<close> accepts\<close>

lemma ReadTask_parse_Inr:
  assumes "ReadTask_parse env t data err = Inr x"
  shows "\<exists>rw p. JSON_parse_0 env data = Inr rw \<and> getProperty rw ''SourceFile'' = Inr (JStr p) \<and>
               path_resolve env p = sourceFile t \<and> x = parseTags env t rw"
  using assms
  by (auto simp: ReadTask_parse_def split: sum.splits jsval.splits if_splits)

lemma getProperty_entry:
  assumes "getProperty rw k = Inr (JStr p)"
  shows "(k, JStr p) \<in> set (entries rw)"
proof (cases rw)
  case (JObj ps)
  with assms have "map_of ps k = Some (JStr p)" by (auto split: option.splits)
  then show ?thesis using JObj by (auto dest: map_of_SomeD)
next
  case (JArr xs ps)
  with assms have "map_of ps k = Some (JStr p)" by (auto split: option.splits)
  then show ?thesis using JArr by (auto dest: map_of_SomeD)
qed (use assms in simp_all)

lemma tagName_plain:
  "CHR '':'' \<notin> set k \<Longrightarrow> tagName t k = k"
proof -
  assume a: "CHR '':'' \<notin> set k"
  have "\<And>c. c \<notin> set k \<Longrightarrow> splitOn c k = [k]"
    by (induction k) auto
  with a show ?thesis by (simp add: tagName_def)
qed

lemma parseTags_key:
  "key \<noteq> ''errors'' \<Longrightarrow> key \<noteq> ''warnings'' \<Longrightarrow>
   fst (parseTags env t rw) key =
     fst (fold (parseEntry env t
                 \<lparr>raw = rw, rawDegrouped = degroupRaw t rw,
                  gps = parseGPSLocation env (degroupRaw t rw) (options t),
                  tzSrc = fst (extractTzOffset env t (degroupRaw t rw)
                                 (parseGPSLocation env (degroupRaw t rw) (options t)))\<rparr>)
            (entries rw)
            (case fst (extractTzOffset env t (degroupRaw t rw)
                         (parseGPSLocation env (degroupRaw t rw) (options t))) of
               Some x \<Rightarrow> [''SourceFile'' \<mapsto> TRaw (JStr (sourceFile t)),
                          ''errors'' \<mapsto> strings (task_errors t),
                          ''tz'' \<mapsto> TRaw (JStr (tz x)), ''tzSource'' \<mapsto> TRaw (JStr (src x))]
             | None \<Rightarrow> [''SourceFile'' \<mapsto> TRaw (JStr (sourceFile t)),
                         ''errors'' \<mapsto> strings (task_errors t)],
             task_warnings t @
             snd (extractTzOffset env t (degroupRaw t rw)
                    (parseGPSLocation env (degroupRaw t rw) (options t))))) key"
  by (simp add: parseTags_def Let_def)

text \<open>
  Claim C8. When the GPS extraction flags the coordinates invalid, the record that
  \<^verbatim>\<open>parse\<close> returns has no entry under a key whose tag name (the key, degrouped when the
  task degroups) starts with \<^verbatim>\<open>GPS\<close> or \<^verbatim>\<open>Geolocation\<close>.
\<close>

theorem gps_invalid_suppresses:
  assumes "ReadTask_parse env t data err = Inr (tags, t')"
    and "JSON_parse_0 env data = Inr rw"
    and "gpsIsInvalid (parseGPSLocation env (degroupRaw t rw) (options t))"
  shows "\<forall>key. tags key \<noteq> None \<longrightarrow>
           \<not> startsWith (tagName t key) ''GPS'' \<and> \<not> startsWith (tagName t key) ''Geolocation''"
proof (intro allI impI)
  fix key
  assume present: "tags key \<noteq> None"
  let ?g = "parseGPSLocation env (degroupRaw t rw) (options t)"
  let ?z = "extractTzOffset env t (degroupRaw t rw) ?g"
  let ?st = "\<lparr>raw = rw, rawDegrouped = degroupRaw t rw, gps = ?g, tzSrc = fst ?z\<rparr>"
  from ReadTask_parse_Inr [OF assms(1)] assms(2)
  have tags: "tags = fst (parseTags env t rw)" by (metis fst_conv sum.inject(2))
  have fixed: "tagName t ''SourceFile'' = ''SourceFile''" "tagName t ''errors'' = ''errors''"
    "tagName t ''warnings'' = ''warnings''" "tagName t ''tz'' = ''tz''"
    "tagName t ''tzSource'' = ''tzSource''"
    by (simp_all add: tagName_plain)
  show "\<not> startsWith (tagName t key) ''GPS'' \<and> \<not> startsWith (tagName t key) ''Geolocation''"
  proof (cases "key = ''errors'' \<or> key = ''warnings''")
    case True
    then show ?thesis using fixed by (auto simp: startsWith_def)
  next
    case False
    then have "fst (parseTags env t rw) key =
      fst (fold (parseEntry env t ?st) (entries rw)
            (case fst ?z of
               Some x \<Rightarrow> [''SourceFile'' \<mapsto> TRaw (JStr (sourceFile t)),
                          ''errors'' \<mapsto> strings (task_errors t),
                          ''tz'' \<mapsto> TRaw (JStr (tz x)), ''tzSource'' \<mapsto> TRaw (JStr (src x))]
             | None \<Rightarrow> [''SourceFile'' \<mapsto> TRaw (JStr (sourceFile t)),
                         ''errors'' \<mapsto> strings (task_errors t)],
             task_warnings t @ snd ?z)) key"
      by (simp add: parseTags_key)
    with present tags have "fst (fold (parseEntry env t ?st) (entries rw)
            (case fst ?z of
               Some x \<Rightarrow> [''SourceFile'' \<mapsto> TRaw (JStr (sourceFile t)),
                          ''errors'' \<mapsto> strings (task_errors t),
                          ''tz'' \<mapsto> TRaw (JStr (tz x)), ''tzSource'' \<mapsto> TRaw (JStr (src x))]
             | None \<Rightarrow> [''SourceFile'' \<mapsto> TRaw (JStr (sourceFile t)),
                         ''errors'' \<mapsto> strings (task_errors t)],
             task_warnings t @ snd ?z)) key \<noteq> None"
      by simp
    from fold_parseEntry_keys [OF this] consider
        (initial) "key = ''SourceFile'' \<or> key = ''errors'' \<or> key = ''tz'' \<or> key = ''tzSource''"
      | (entry) e where "e \<in> set (entries rw)" "fst e = key"
          "\<not> isNull (fst (parseTag env t ?st (tagName t (fst e)) (snd e)))"
      by (auto split: option.splits if_splits)
    then show ?thesis
    proof cases
      case initial
      then show ?thesis using fixed by (auto simp: startsWith_def)
    next
      case entry
      show ?thesis
      proof (rule ccontr)
        assume "\<not> (\<not> startsWith (tagName t key) ''GPS'' \<and> \<not> startsWith (tagName t key) ''Geolocation'')"
        then have "startsWith (tagName t (fst e)) ''GPS'' \<or> startsWith (tagName t (fst e)) ''Geolocation''"
          using entry(2) by simp
        moreover have "gpsIsInvalid (gps ?st)" using assms(3) by simp
        ultimately have "parseTag env t ?st (tagName t (fst e)) (snd e) = (TRaw JUndefined, [])"
          by (rule parseTag_gps_invalid [rotated])
        with entry(3) show False by (simp add: isNull_def)
      qed
    qed
  qed
qed

lemma sample_JSON_parse_0: "JSON_parse_0 sample_env sample_reply_text = Inr sample_raw"
  by (simp add: JSON_parse_0_def sample_env_def JSON_parse_sample_def sample_reply_def
      sample_reply_text_def sample_joined_text_def)

lemma sample_accepted:
  "ReadTask_parse sample_env sample_task sample_reply_text None
     = Inr (parseTags sample_env sample_task sample_raw)"
proof -
  have "getProperty sample_raw ''SourceFile'' = Inr (JStr ''C:/a.jpg'')"
    by (simp add: sample_raw_def)
  moreover have "path_resolve sample_env ''C:/a.jpg'' = sourceFile sample_task"
    by (simp add: sample_env_def sample_task_def)
  ultimately show ?thesis
    by (simp add: ReadTask_parse_def sample_JSON_parse_0)
qed

text \<open>
  The theorem at the reply for \<^verbatim>\<open>C:\a.jpg\<close> with latitude and longitude zero: the record has
  no \<^verbatim>\<open>GPSAltitude\<close>, which the reply gave as 12.
\<close>

theorem gps_invalid_suppresses_witness:
  "JSON_parse_0 sample_env sample_reply_text = Inr sample_raw \<and>
   gpsIsInvalid (parseGPSLocation sample_env (degroupRaw sample_task sample_raw) (options sample_task)) \<and>
   decoded (ReadTask_parse sample_env sample_task sample_reply_text None) ''GPSAltitude'' = None"
proof -
  have inv: "gpsIsInvalid (parseGPSLocation sample_env (degroupRaw sample_task sample_raw)
      (options sample_task))"
    by (simp add: gpsIsInvalid_def sample_env_def sample_parseGPSLocation_def degroupRaw_def
        degroup_def sample_task_def sample_raw_def optProperty_def)
  have acc: "ReadTask_parse sample_env sample_task sample_reply_text None
      = Inr (fst (parseTags sample_env sample_task sample_raw),
             snd (parseTags sample_env sample_task sample_raw))"
    by (simp add: sample_accepted)
  from gps_invalid_suppresses [OF acc sample_JSON_parse_0 inv]
  have "fst (parseTags sample_env sample_task sample_raw) ''GPSAltitude'' \<noteq> None \<longrightarrow>
        \<not> startsWith (tagName sample_task ''GPSAltitude'') ''GPS''"
    by blast
  moreover have "startsWith (tagName sample_task ''GPSAltitude'') ''GPS''"
    by (simp add: tagName_plain startsWith_def)
  ultimately have "fst (parseTags sample_env sample_task sample_raw) ''GPSAltitude'' = None"
    by blast
  then have "decoded (ReadTask_parse sample_env sample_task sample_reply_text None) ''GPSAltitude'' = None"
    by (simp add: decoded_def sample_accepted)
  with sample_JSON_parse_0 inv show ?thesis by blast
qed

subsection \<open>The record's SourceFile\<close>

lemma parseTag_SourceFile:
  "parseTag env t st ''SourceFile'' (JStr p) =
     (if trim p \<in> set NullIsh then TRaw JUndefined
      else case BinaryField_fromRawValue env p of Some b \<Rightarrow> TBinary b | None \<Rightarrow> TRaw (JStr p),
      [])"
  by (subst parseTag.simps)
     (simp add: nullish_def PassthroughTags_def parseTag_gps_def startsWith_def
       parseTag_string_def endsWith_def MaybeDateOrTimeRe_test_def toLowerCase_def
       split: option.splits)

text \<open>
  Claim C2, as the code has it. A reply is accepted only when its declared SourceFile is a
  string whose normal form (\<^verbatim>\<open>path.resolve\<close>) equals the requested path. The record's
  SourceFile is then the declared text decoded like any other string tag: the declared
  text as written, not its normal form (a binary placeholder if the text is a binary
  marker; the requested path, which the constructor had put there, if the text is
  null-ish). A reply whose declared SourceFile is a string with another normal form makes
  \<^verbatim>\<open>parse\<close> throw the internal error; no record is returned, so no warning or error entry
  stands in for it.
\<close>

theorem parse_SourceFile:
  "(\<forall>tags t'. ReadTask_parse env t data err = Inr (tags, t') \<longrightarrow>
      (\<exists>rw p. JSON_parse_0 env data = Inr rw \<and> getProperty rw ''SourceFile'' = Inr (JStr p) \<and>
         path_resolve env p = sourceFile t \<and>
         (distinct (map fst (entries rw)) \<longrightarrow>
            tags ''SourceFile'' =
              Some (if trim p \<in> set NullIsh then TRaw (JStr (sourceFile t))
                    else case BinaryField_fromRawValue env p of
                           Some b \<Rightarrow> TBinary b | None \<Rightarrow> TRaw (JStr p))))) \<and>
   (\<forall>rw p. JSON_parse_0 env data = Inr rw \<and> getProperty rw ''SourceFile'' = Inr (JStr p) \<and>
      path_resolve env p \<noteq> sourceFile t \<longrightarrow>
      ReadTask_parse env t data err =
        Inl (Error (''Internal error: unexpected SourceFile of '' @ p @ '' for file '' @ sourceFile t)))"
proof (intro conjI allI impI)
  fix tags t'
  assume acc: "ReadTask_parse env t data err = Inr (tags, t')"
  from ReadTask_parse_Inr [OF acc] obtain rw p where
    rw: "JSON_parse_0 env data = Inr rw" and p: "getProperty rw ''SourceFile'' = Inr (JStr p)"
    and same: "path_resolve env p = sourceFile t" and x: "(tags, t') = parseTags env t rw"
    by blast
  let ?g = "parseGPSLocation env (degroupRaw t rw) (options t)"
  let ?z = "extractTzOffset env t (degroupRaw t rw) ?g"
  let ?st = "\<lparr>raw = rw, rawDegrouped = degroupRaw t rw, gps = ?g, tzSrc = fst ?z\<rparr>"
  let ?acc = "(case fst ?z of
               Some x \<Rightarrow> [''SourceFile'' \<mapsto> TRaw (JStr (sourceFile t)),
                          ''errors'' \<mapsto> strings (task_errors t),
                          ''tz'' \<mapsto> TRaw (JStr (tz x)), ''tzSource'' \<mapsto> TRaw (JStr (src x))]
             | None \<Rightarrow> [''SourceFile'' \<mapsto> TRaw (JStr (sourceFile t)),
                         ''errors'' \<mapsto> strings (task_errors t)],
             task_warnings t @ snd ?z)"
  let ?v = "if trim p \<in> set NullIsh then TRaw JUndefined
            else case BinaryField_fromRawValue env p of Some b \<Rightarrow> TBinary b | None \<Rightarrow> TRaw (JStr p)"
  have name: "tagName t ''SourceFile'' = ''SourceFile''" by (simp add: tagName_plain)
  have v: "fst (parseTag env t ?st (tagName t ''SourceFile'') (JStr p)) = ?v"
    by (simp add: name parseTag_SourceFile)
  have "fst (parseTags env t rw) ''SourceFile''
      = fst (fold (parseEntry env t ?st) (entries rw) ?acc) ''SourceFile''"
    by (rule parseTags_key) simp_all
  moreover from x have "tags = fst (parseTags env t rw)" by (metis fst_conv)
  ultimately
  have tags: "tags ''SourceFile'' = fst (fold (parseEntry env t ?st) (entries rw) ?acc) ''SourceFile''"
    by simp
  have init: "fst ?acc ''SourceFile'' = Some (TRaw (JStr (sourceFile t)))"
    by (simp split: option.splits)
  have "distinct (map fst (entries rw)) \<longrightarrow>
          tags ''SourceFile'' =
            Some (if trim p \<in> set NullIsh then TRaw (JStr (sourceFile t))
                  else case BinaryField_fromRawValue env p of
                         Some b \<Rightarrow> TBinary b | None \<Rightarrow> TRaw (JStr p))"
  proof
    assume d: "distinct (map fst (entries rw))"
    have e: "(''SourceFile'', JStr p) \<in> set (entries rw)" by (rule getProperty_entry [OF p])
    show "tags ''SourceFile'' =
            Some (if trim p \<in> set NullIsh then TRaw (JStr (sourceFile t))
                  else case BinaryField_fromRawValue env p of
                         Some b \<Rightarrow> TBinary b | None \<Rightarrow> TRaw (JStr p))"
    proof (cases "trim p \<in> set NullIsh")
      case True
      have "\<forall>x \<in> set (entries rw). fst x = ''SourceFile'' \<longrightarrow>
              isNull (fst (parseTag env t ?st (tagName t (fst x)) (snd x)))"
      proof (intro ballI impI)
        fix x assume "x \<in> set (entries rw)" "fst x = ''SourceFile''"
        with d e have "x = (''SourceFile'', JStr p)"
          by (metis eq_key_imp_eq_value prod.collapse)
        then show "isNull (fst (parseTag env t ?st (tagName t (fst x)) (snd x)))"
          using v True by (simp add: isNull_def)
      qed
      from fold_parseEntry_untouched [OF this, of ?acc] init tags True show ?thesis by simp
    next
      case False
      then have "\<not> isNull (fst (parseTag env t ?st (tagName t ''SourceFile'') (JStr p)))"
        unfolding v by (simp add: isNull_def split: option.splits)
      from fold_parseEntry_written [OF d e this, of ?acc] tags v False show ?thesis by simp
    qed
  qed
  with rw p same
  show "\<exists>rw p. JSON_parse_0 env data = Inr rw \<and> getProperty rw ''SourceFile'' = Inr (JStr p) \<and>
         path_resolve env p = sourceFile t \<and>
         (distinct (map fst (entries rw)) \<longrightarrow>
            tags ''SourceFile'' =
              Some (if trim p \<in> set NullIsh then TRaw (JStr (sourceFile t))
                    else case BinaryField_fromRawValue env p of
                           Some b \<Rightarrow> TBinary b | None \<Rightarrow> TRaw (JStr p)))"
    by blast
next
  fix rw p
  assume "JSON_parse_0 env data = Inr rw \<and> getProperty rw ''SourceFile'' = Inr (JStr p) \<and>
      path_resolve env p \<noteq> sourceFile t"
  then show "ReadTask_parse env t data err =
        Inl (Error (''Internal error: unexpected SourceFile of '' @ p @ '' for file '' @ sourceFile t))"
    by (simp add: ReadTask_parse_def)
qed

lemmas sample_defs = sample_env_def sample_task_def sample_options_def sample_reply_def
  sample_raw_def sample_reply_text_def sample_joined_text_def JSON_parse_sample_def
  sample_parseGPSLocation_def
  sample_extractTzOffsetFromTags_def sample_normalizeZone_def sample_ExifDateTime_from_def

lemmas read_defs = ReadTask_parse_def JSON_parse_0_def parseTags_def degroupRaw_def degroup_def
  tagName_def parseEntry_def extractTzOffset_def extractTzOffsetFromGps_def orElse_def
  defaultToUTC_def isVideo_def optProperty_def gpsIsInvalid_def gpsResults_def
  parseTag_gps_def parseTag_string_def nullish_def NullIsh_def PassthroughTags_def MaybeDateOrTimeRe_test_def
  isUtcTagName_def toLowerCase_def startsWith_def endsWith_def trim_def isWhiteSpace_def
  isNull_def strings_def decoded_def Let_def

text \<open>
  The theorem at the reply for \<^verbatim>\<open>C:\a.jpg\<close>, which declares \<^verbatim>\<open>C:/a.jpg\<close>: accepted, with the
  declared text as the record's SourceFile; and at the same reply for a task on
  \<^verbatim>\<open>C:\b.jpg\<close>: the internal error.
\<close>

theorem parse_SourceFile_witness:
  "distinct (map fst (entries sample_raw)) \<and>
   decoded (ReadTask_parse sample_env sample_task sample_reply_text None) ''SourceFile''
     = Some (TRaw (JStr ''C:/a.jpg'')) \<and>
   ReadTask_parse sample_env (sample_task\<lparr>sourceFile := ''C:'' @ [CHR 0x5C] @ ''b.jpg''\<rparr>)
       sample_reply_text None
     = Inl (Error (''Internal error: unexpected SourceFile of C:/a.jpg for file C:'' @
                   [CHR 0x5C] @ ''b.jpg''))"
proof -
  let ?tags = "fst (parseTags sample_env sample_task sample_raw)"
  have d: "distinct (map fst (entries sample_raw))" by (simp add: sample_raw_def)
  have acc: "ReadTask_parse sample_env sample_task sample_reply_text None
      = Inr (?tags, snd (parseTags sample_env sample_task sample_raw))"
    by (simp add: sample_accepted)
  have sf: "getProperty sample_raw ''SourceFile'' = Inr (JStr ''C:/a.jpg'')"
    by (simp add: sample_raw_def)
  from parse_SourceFile [of sample_env sample_task sample_reply_text None] acc
  obtain rw p where "JSON_parse_0 sample_env sample_reply_text = Inr rw"
    and "getProperty rw ''SourceFile'' = Inr (JStr p)"
    and w: "distinct (map fst (entries rw)) \<longrightarrow>
            ?tags ''SourceFile'' =
              Some (if trim p \<in> set NullIsh then TRaw (JStr (sourceFile sample_task))
                    else case BinaryField_fromRawValue sample_env p of
                           Some b \<Rightarrow> TBinary b | None \<Rightarrow> TRaw (JStr p))"
    by blast
  then have rw: "rw = sample_raw" and p: "p = ''C:/a.jpg''"
    using sample_JSON_parse_0 sf by simp_all
  from w d have "?tags ''SourceFile'' =
      Some (if trim ''C:/a.jpg'' \<in> set NullIsh then TRaw (JStr (sourceFile sample_task))
            else case BinaryField_fromRawValue sample_env ''C:/a.jpg'' of
                   Some b \<Rightarrow> TBinary b | None \<Rightarrow> TRaw (JStr ''C:/a.jpg''))"
    unfolding rw p by blast
  then have "?tags ''SourceFile'' = Some (TRaw (JStr ''C:/a.jpg''))"
    by (simp add: trim_def isWhiteSpace_def NullIsh_def sample_env_def startsWith_def)
  then have one: "decoded (ReadTask_parse sample_env sample_task sample_reply_text None) ''SourceFile''
      = Some (TRaw (JStr ''C:/a.jpg''))"
    by (simp add: decoded_def sample_accepted)
  have "JSON_parse_0 sample_env sample_reply_text = Inr sample_raw \<and>
        getProperty sample_raw ''SourceFile'' = Inr (JStr ''C:/a.jpg'') \<and>
        path_resolve sample_env ''C:/a.jpg''
          \<noteq> sourceFile (sample_task\<lparr>sourceFile := ''C:'' @ [CHR 0x5C] @ ''b.jpg''\<rparr>)"
    using sample_JSON_parse_0 sf by (simp add: sample_env_def)
  with parse_SourceFile [of sample_env "sample_task\<lparr>sourceFile := ''C:'' @ [CHR 0x5C] @ ''b.jpg''\<rparr>"
      sample_reply_text None]
  have "ReadTask_parse sample_env (sample_task\<lparr>sourceFile := ''C:'' @ [CHR 0x5C] @ ''b.jpg''\<rparr>)
       sample_reply_text None
     = Inl (Error (''Internal error: unexpected SourceFile of '' @ ''C:/a.jpg'' @ '' for file '' @
         sourceFile (sample_task\<lparr>sourceFile := ''C:'' @ [CHR 0x5C] @ ''b.jpg''\<rparr>)))"
    by blast
  then have two: "ReadTask_parse sample_env (sample_task\<lparr>sourceFile := ''C:'' @ [CHR 0x5C] @ ''b.jpg''\<rparr>)
       sample_reply_text None
     = Inl (Error (''Internal error: unexpected SourceFile of C:/a.jpg for file C:'' @
                   [CHR 0x5C] @ ''b.jpg''))"
    by simp
  from d one two show ?thesis by blast
qed

text \<open>
  Claim C2 as stated fails: the reply for \<^verbatim>\<open>C:\a.jpg\<close> declares \<^verbatim>\<open>C:/a.jpg\<close>, as ExifTool
  writes paths; it is accepted, and the record's SourceFile is the declared text, which is
  not the requested path.
\<close>

theorem parse_SourceFile_counterexample:
  "decoded (ReadTask_parse sample_env sample_task sample_reply_text None) ''SourceFile''
     = Some (TRaw (JStr ''C:/a.jpg'')) \<and>
   path_resolve sample_env ''C:/a.jpg'' = sourceFile sample_task \<and>
   ''C:/a.jpg'' \<noteq> sourceFile sample_task"
  by (simp add: sample_defs read_defs parseTag.simps)

subsection \<open>Null-ish values\<close>




subsection \<open>The timezone cascade\<close>

lemma firstSuccess_orElse: "firstSuccess (a # xs) = orElse a (firstSuccess xs)"
  by (cases a) (simp_all add: orElse_def)

lemma orElse_simps [simp]:
  "orElse None b = b" "orElse (Some x) b = Some x" "orElse a None = a"
  by (simp_all add: orElse_def split: option.splits)

text \<open>
  Claim C7. The zone that \<^verbatim>\<open>#extractTzOffset\<close> resolves is the first success of the sources
  in the order of the specification. The GPS source is evaluated, and its lookup warning
  pushed, only when the cascade reaches it: not when GPS is not preferred and an explicit
  tag yields a zone. In particular, with GPS not preferred an explicit timezone tag is the
  result whatever the coordinates are, and with GPS preferred a zone from GPS is.
\<close>

theorem extractTzOffset_cascade:
  "fst (extractTzOffset env t rd g) = cascade_spec env t rd g \<and>
   snd (extractTzOffset env t rd g) =
     (if preferTimezoneInferenceFromGps (options t) \<or> extractTzOffsetFromTags env rd (options t) = None
      then snd (extractTzOffsetFromGps env t rd g) else []) \<and>
   (\<not> preferTimezoneInferenceFromGps (options t) \<and>
    extractTzOffsetFromTags env rd (options t) = Some x \<longrightarrow>
      extractTzOffset env t rd g = (Some x, [])) \<and>
   (preferTimezoneInferenceFromGps (options t) \<and> fst (extractTzOffsetFromGps env t rd g) = Some y \<longrightarrow>
      extractTzOffset env t rd g = extractTzOffsetFromGps env t rd g)"
proof (intro conjI impI)
  show "fst (extractTzOffset env t rd g) = cascade_spec env t rd g"
    by (cases "fst (extractTzOffsetFromGps env t rd g)")
       (simp_all add: extractTzOffset_def cascade_spec_def firstSuccess_orElse Let_def)
  show "snd (extractTzOffset env t rd g) =
     (if preferTimezoneInferenceFromGps (options t) \<or> extractTzOffsetFromTags env rd (options t) = None
      then snd (extractTzOffsetFromGps env t rd g) else [])"
    by (simp add: extractTzOffset_def Let_def)
next
  assume "\<not> preferTimezoneInferenceFromGps (options t) \<and>
    extractTzOffsetFromTags env rd (options t) = Some x"
  then show "extractTzOffset env t rd g = (Some x, [])"
    by (simp add: extractTzOffset_def Let_def)
next
  assume "preferTimezoneInferenceFromGps (options t) \<and> fst (extractTzOffsetFromGps env t rd g) = Some y"
  then show "extractTzOffset env t rd g = extractTzOffsetFromGps env t rd g"
    by (simp add: extractTzOffset_def Let_def)
qed

text \<open>
  The theorem at a photo with the tag \<^verbatim>\<open>OffsetTimeOriginal\<close> and coordinates in Berlin: the
  tag wins when GPS is not preferred, the coordinates win when it is.
\<close>

theorem extractTzOffset_cascade_witness:
  "extractTzOffset sample_env sample_task sample_photo
     (sample_parseGPSLocation sample_photo sample_options)
     = (Some \<lparr>tz = ''UTC+1'', src = ''OffsetTimeOriginal''\<rparr>, []) \<and>
   extractTzOffset sample_env
     (sample_task\<lparr>options := sample_options\<lparr>preferTimezoneInferenceFromGps := True\<rparr>\<rparr>)
     sample_photo (sample_parseGPSLocation sample_photo sample_options)
     = (Some \<lparr>tz = ''Europe/Berlin'', src = ''GPSLatitude/GPSLongitude''\<rparr>, [])"
proof -
  let ?g = "sample_parseGPSLocation sample_photo sample_options"
  let ?t = "sample_task\<lparr>options := sample_options\<lparr>preferTimezoneInferenceFromGps := True\<rparr>\<rparr>"
  have a: "\<not> preferTimezoneInferenceFromGps (options sample_task) \<and>
      extractTzOffsetFromTags sample_env sample_photo (options sample_task)
        = Some \<lparr>tz = ''UTC+1'', src = ''OffsetTimeOriginal''\<rparr>"
    by (simp add: sample_task_def sample_options_def sample_env_def
        sample_extractTzOffsetFromTags_def sample_photo_def optProperty_def)
  have one: "extractTzOffset sample_env sample_task sample_photo ?g
      = (Some \<lparr>tz = ''UTC+1'', src = ''OffsetTimeOriginal''\<rparr>, [])"
    by (rule extractTzOffset_cascade [THEN conjunct2, THEN conjunct2, THEN conjunct1, rule_format, OF a])
  have gpsz: "extractTzOffsetFromGps sample_env ?t sample_photo ?g
      = (Some \<lparr>tz = ''Europe/Berlin'', src = ''GPSLatitude/GPSLongitude''\<rparr>, [])"
    by (simp add: extractTzOffsetFromGps_def sample_parseGPSLocation_def sample_photo_def
        optProperty_def sample_env_def sample_normalizeZone_def sample_options_def Let_def)
  then have b: "preferTimezoneInferenceFromGps (options ?t) \<and>
      fst (extractTzOffsetFromGps sample_env ?t sample_photo ?g)
        = Some \<lparr>tz = ''Europe/Berlin'', src = ''GPSLatitude/GPSLongitude''\<rparr>"
    by simp
  have "extractTzOffset sample_env ?t sample_photo ?g = extractTzOffsetFromGps sample_env ?t sample_photo ?g"
    by (rule extractTzOffset_cascade [THEN conjunct2, THEN conjunct2, THEN conjunct2, rule_format, OF b])
  with gpsz have two: "extractTzOffset sample_env ?t sample_photo ?g
      = (Some \<lparr>tz = ''Europe/Berlin'', src = ''GPSLatitude/GPSLongitude''\<rparr>, [])"
    by simp
  from one two show ?thesis by (intro conjI)
qed

subsection \<open>The backfill correction\<close>

text \<open>For a file defaulted to UTC the cascade always produces a zone.\<close>

lemma cascade_defaults_video:
  "defaultToUTC env t rd \<Longrightarrow> fst (extractTzOffset env t rd g) \<noteq> None"
  by (cases "fst (extractTzOffsetFromGps env t rd g)";
      cases "extractTzOffsetFromTags env rd (options t)";
      cases "extractTzOffsetFromDatestamps env rd (options t)")
     (simp_all add: extractTzOffset_def Let_def)

text \<open>
  Claim C9, as the code has it. Take a string leaf that \<^verbatim>\<open>#parseTag\<close> decodes as a date-time
  whose zone was only inferred, in a file that defaults to UTC, under a name that is not
  inherently UTC, with a zone from the cascade. When the option \<^verbatim>\<open>backfillTimezones\<close> is on,
  the value returned is the decoded one rewritten into the cascade's zone, which keeps
  its instant and changes only its zone; when the option is off, the decoded value is
  returned as it is. No warning is pushed.
\<close>

theorem backfill_rewrites_inferred_zone:
  assumes "dateTimeLeaf env st name v"
    and "ExifDateTime_from env v (Some ''UTC'') = Inr (Some d)"
    and "inferredZone d = Some True"
    and "defaultToUTC env t (rawDegrouped st)"
    and "\<not> isUtcTagName name"
    and "tzSrc st = Some z"
  shows "parseTag env t st name (JStr v) =
           (TDateTime (if backfillTimezones (options t) then setZone d (tz z) else d), []) \<and>
         instant (setZone d (tz z)) = instant d \<and> zone (setZone d (tz z)) = Some (tz z)"
proof -
  from assms(1) have guards: "\<not> nullish (JStr v)" "name \<notin> set PassthroughTags"
    "parseTag_gps st name = None" "BinaryField_fromRawValue env v = None"
    "(if endsWith name ''Valid'' then toBoolean env v else None) = None"
    "MaybeDateOrTimeRe_test name" "\<not> OnlyZerosRE_test env v"
    and incl: "str_includes (map toLowerCase name) ''subsec'' \<or>
       str_includes (map toLowerCase name) ''time'' \<or>
       str_includes (map toLowerCase name) ''date'' \<or>
       str_includes (map toLowerCase name) ''when''"
    by (simp_all add: dateTimeLeaf_def)
  have "parseTag_string env t st name v =
      Inr (TDateTime (if backfillTimezones (options t) then setZone d (tz z) else d))"
    using guards(4-7) incl assms(2-6)
    by (auto simp: parseTag_string_def Let_def)
  then have "parseTag env t st name (JStr v) =
           (TDateTime (if backfillTimezones (options t) then setZone d (tz z) else d), [])"
    using guards(1-3) by (subst parseTag.simps) simp
  then show ?thesis by (simp add: setZone_def)
qed

text \<open>
  The theorem at the creation date of a video whose explicit offset tag gives the
  cascade the zone \<^verbatim>\<open>UTC+1\<close>: the zoneless timestamp, read as UTC, is returned in that zone.
\<close>

theorem backfill_rewrites_inferred_zone_witness:
  "parseTag sample_env sample_task
     \<lparr>raw = sample_video, rawDegrouped = sample_video, gps = None,
      tzSrc = Some \<lparr>tz = ''UTC+1'', src = ''OffsetTimeOriginal''\<rparr>\<rparr>
     ''CreateDate'' (JStr ''2020:01:01 10:00:00'')
     = (TDateTime \<lparr>instant = 1577872800000, zone = Some ''UTC+1'', inferredZone = Some True\<rparr>, [])"
proof -
  let ?st = "\<lparr>raw = sample_video, rawDegrouped = sample_video, gps = None,
      tzSrc = Some \<lparr>tz = ''UTC+1'', src = ''OffsetTimeOriginal''\<rparr>\<rparr>"
  let ?d = "\<lparr>instant = 1577872800000, zone = Some ''UTC'', inferredZone = Some True\<rparr>"
  have leaf: "dateTimeLeaf sample_env ?st ''CreateDate'' ''2020:01:01 10:00:00''"
    by (simp add: dateTimeLeaf_def nullish_def NullIsh_def trim_def isWhiteSpace_def
        PassthroughTags_def parseTag_gps_def startsWith_def endsWith_def sample_env_def
        MaybeDateOrTimeRe_test_def toLowerCase_def)
  have dt: "ExifDateTime_from sample_env ''2020:01:01 10:00:00'' (Some ''UTC'') = Inr (Some ?d)"
    by (simp add: sample_env_def sample_ExifDateTime_from_def)
  have inf: "inferredZone ?d = Some True" by simp
  have utc: "defaultToUTC sample_env sample_task (rawDegrouped ?st)"
    by (simp add: defaultToUTC_def isVideo_def optProperty_def sample_video_def startsWith_def
        sample_task_def sample_options_def)
  have nm: "\<not> isUtcTagName ''CreateDate''"
    by (simp add: isUtcTagName_def startsWith_def)
  have z: "tzSrc ?st = Some \<lparr>tz = ''UTC+1'', src = ''OffsetTimeOriginal''\<rparr>" by simp
  from backfill_rewrites_inferred_zone [OF leaf dt inf utc nm z]
  have "parseTag sample_env sample_task ?st ''CreateDate'' (JStr ''2020:01:01 10:00:00'') =
      (TDateTime (if backfillTimezones (options sample_task)
                  then setZone ?d (tz \<lparr>tz = ''UTC+1'', src = ''OffsetTimeOriginal''\<rparr>) else ?d), [])"
    by (rule conjunct1)
  then show ?thesis
    by (simp add: sample_task_def sample_options_def setZone_def)
qed

text \<open>
  Claim C9 as stated fails: the same video decoded with \<^verbatim>\<open>backfillTimezones\<close> off. The
  creation date's zone is inferred, the file defaults to UTC, the name is not inherently
  UTC and the cascade's zone is \<^verbatim>\<open>UTC+1\<close>, yet the value stays in UTC.
\<close>

theorem backfill_counterexample:
  "parseGPSLocation sample_env sample_video sample_options = None \<and>
   fst (extractTzOffset sample_env
          (sample_task\<lparr>options := sample_options\<lparr>backfillTimezones := False\<rparr>\<rparr>) sample_video None)
     = Some \<lparr>tz = ''UTC+1'', src = ''OffsetTimeOriginal''\<rparr> \<and>
   parseTag sample_env (sample_task\<lparr>options := sample_options\<lparr>backfillTimezones := False\<rparr>\<rparr>)
     \<lparr>raw = sample_video, rawDegrouped = sample_video, gps = None,
      tzSrc = Some \<lparr>tz = ''UTC+1'', src = ''OffsetTimeOriginal''\<rparr>\<rparr>
     ''CreateDate'' (JStr ''2020:01:01 10:00:00'')
     = (TDateTime \<lparr>instant = 1577872800000, zone = Some ''UTC'', inferredZone = Some True\<rparr>, [])"
proof (intro conjI)
  show "parseGPSLocation sample_env sample_video sample_options = None"
    by (simp add: sample_env_def sample_parseGPSLocation_def sample_video_def optProperty_def)
  show "fst (extractTzOffset sample_env
          (sample_task\<lparr>options := sample_options\<lparr>backfillTimezones := False\<rparr>\<rparr>) sample_video None)
     = Some \<lparr>tz = ''UTC+1'', src = ''OffsetTimeOriginal''\<rparr>"
    by (simp add: extractTzOffset_def extractTzOffsetFromGps_def Let_def sample_env_def
        sample_task_def sample_options_def sample_extractTzOffsetFromTags_def sample_video_def
        optProperty_def)
  show "parseTag sample_env (sample_task\<lparr>options := sample_options\<lparr>backfillTimezones := False\<rparr>\<rparr>)
     \<lparr>raw = sample_video, rawDegrouped = sample_video, gps = None,
      tzSrc = Some \<lparr>tz = ''UTC+1'', src = ''OffsetTimeOriginal''\<rparr>\<rparr>
     ''CreateDate'' (JStr ''2020:01:01 10:00:00'')
     = (TDateTime \<lparr>instant = 1577872800000, zone = Some ''UTC'', inferredZone = Some True\<rparr>, [])"
    by (subst parseTag.simps)
       (simp add: nullish_def NullIsh_def trim_def isWhiteSpace_def PassthroughTags_def
         parseTag_gps_def startsWith_def endsWith_def parseTag_string_def sample_env_def
         MaybeDateOrTimeRe_test_def toLowerCase_def isUtcTagName_def defaultToUTC_def
         isVideo_def optProperty_def sample_video_def sample_task_def sample_options_def
         sample_ExifDateTime_from_def Let_def)
qed

end
